(* ===== verification/Xibao_Prelude.thy ===== *)
theory Xibao_Prelude
  imports Main "HOL-Library.Word" "HOL-Library.Sublist"
begin

text \<open>
  Shared material of the development: the names of the model's basic types, the lemma
  collections the component theories extend, and generic facts on lists that the
  components share (trimming with \<open>dropWhile\<close>, updates of the last two cells of a
  list, sums over lists).
\<close>

section \<open>Types and collections\<close>

type_synonym u16 = "16 word"

text \<open>
  The exceptions the modelled code can raise: the \<^verbatim>\<open>TypeError\<close> of the runtime (a
  property read from \<^verbatim>\<open>undefined\<close>), and the error the font library throws when a
  font file cannot be read or parsed.
\<close>

datatype js_error = TypeError | FontError

named_theorems xibao_defs "definitions of the model unfolded by the component proofs"
named_theorems js_string_simps "characteristic equations of the string primitives"

section \<open>Lists\<close>

lemma dropWhile_all [simp]: "\<forall>x\<in>set xs. P x \<Longrightarrow> dropWhile P xs = []"
  by (induction xs) auto

lemma dropWhile_eq_Nil_iff: "dropWhile P xs = [] \<longleftrightarrow> (\<forall>x\<in>set xs. P x)"
  by (induction xs) auto

lemma dropWhile_hd_not: "dropWhile P xs \<noteq> [] \<Longrightarrow> \<not> P (hd (dropWhile P xs))"
  by (induction xs) auto

lemma filter_dropWhile_neg [simp]:
  "filter (\<lambda>x. \<not> P x) (dropWhile P xs) = filter (\<lambda>x. \<not> P x) xs"
  by (induction xs) auto

lemma length_dropWhile_le' [simp]: "length (dropWhile P xs) \<le> length xs"
  by (induction xs) auto

lemma dropWhile_suffix: "suffix (dropWhile P xs) xs"
  by (metis suffixI takeWhile_dropWhile_id)

lemma concat_filter_nonempty [simp]: "concat (filter (\<lambda>l. l \<noteq> []) xss) = concat xss"
  by (induction xss) auto

lemma dropWhile_hd_id: "xs \<noteq> [] \<Longrightarrow> \<not> P (hd xs) \<Longrightarrow> dropWhile P xs = xs"
  by (cases xs) auto

text \<open>
  A list of at least two cells, seen from its end: the shape in which the code reads
  and overwrites \<open>result[result.length - 1]\<close> and \<open>result[result.length - 2]\<close>.
\<close>

lemma list_two_last_cases:
  obtains (nil) "xs = []" | (one) x where "xs = [x]"
  | (more) ys y z where "xs = ys @ [y, z]"
proof (cases xs rule: rev_cases)
  case Nil
  then show ?thesis by (rule nil)
next
  case (snoc ys z)
  then show ?thesis
    by (cases ys rule: rev_cases) (auto intro: one more)
qed

lemma nth_two_last [simp]:
  "(ys @ [y, z]) ! (Suc (length ys)) = z" "(ys @ [y, z]) ! (length ys) = y"
  by (simp_all add: nth_append)

lemma update_two_last [simp]:
  "(ys @ [y, z])[Suc (length ys) := b, length ys := a] = ys @ [a, b]"
  by (simp add: list_update_append)

lemma list_all_take: "list_all P xs \<Longrightarrow> list_all P (take n xs)"
  by (auto simp: list_all_iff dest: in_set_takeD)

lemma list_all_drop: "list_all P xs \<Longrightarrow> list_all P (drop n xs)"
  by (auto simp: list_all_iff dest: in_set_dropD)

section \<open>Sums\<close>

lemma map_sum_eq_Inl_iff: "map_sum f g x = Inl e \<longleftrightarrow> (\<exists>a. x = Inl a \<and> e = f a)"
  by (cases x) auto

lemma map_sum_eq_Inr_iff: "map_sum f g x = Inr y \<longleftrightarrow> (\<exists>b. x = Inr b \<and> y = g b)"
  by (cases x) auto

lemma ex_list_all2: "\<forall>x\<in>set xs. \<exists>y. P x y \<Longrightarrow> \<exists>ys. list_all2 P xs ys"
proof (induction xs)
  case Nil
  then show ?case by simp
next
  case (Cons x xs)
  then obtain y ys where "P x y" "list_all2 P xs ys" by auto
  then have "list_all2 P (x # xs) (y # ys)" by simp
  then show ?case ..
qed

end
