(* ===== verification/JS_String.thy ===== *)
theory JS_String
  imports Xibao_Prelude
begin

text \<open>
  JavaScript strings as the source's functions see them: sequences of UTF-16 code
  units. This theory holds the string primitives that \<^verbatim>\<open>textToLines\<close> calls
  (iteration by code point, \<^verbatim>\<open>charCodeAt(0)\<close>, \<^verbatim>\<open>trim\<close>, \<^verbatim>\<open>includes\<close>,
  \<^verbatim>\<open>substring\<close>, \<^verbatim>\<open>length\<close>) with the facts the line splitter needs about them.
\<close>

section \<open>Code units and code points\<close>

type_synonym js_string = "u16 list"

definition is_high_surrogate :: "u16 \<Rightarrow> bool" where
  "is_high_surrogate u \<longleftrightarrow> 0xD800 \<le> u \<and> u \<le> 0xDBFF"

definition is_low_surrogate :: "u16 \<Rightarrow> bool" where
  "is_low_surrogate u \<longleftrightarrow> 0xDC00 \<le> u \<and> u \<le> 0xDFFF"

text \<open>
  The string iterator behind \<^verbatim>\<open>for (const char of text)\<close>: each step yields one
  code point as a string of one code unit, or of two when a high surrogate is followed
  by a low one. Unpaired surrogates are yielded alone.
\<close>

fun js_chars :: "js_string \<Rightarrow> js_string list" where
  "js_chars [] = []"
| "js_chars [u] = [[u]]"
| "js_chars (u # v # s) =
     (if is_high_surrogate u \<and> is_low_surrogate v then [u, v] # js_chars s
      else [u] # js_chars (v # s))"

text \<open>
  \<^verbatim>\<open>char.charCodeAt(0) < 256\<close>: the first code unit, compared as a number. On the
  empty string \<^verbatim>\<open>charCodeAt(0)\<close> is \<^verbatim>\<open>NaN\<close> and the comparison is false.
\<close>

definition char_code_lt_256 :: "js_string \<Rightarrow> bool" where
  "char_code_lt_256 c = (case c of [] \<Rightarrow> False | u # _ \<Rightarrow> u < 256)"

section \<open>trim, includes, substring\<close>

text \<open>
  The code units that \<^verbatim>\<open>String.prototype.trim\<close> strips: ECMAScript's WhiteSpace
  (TAB, VT, FF, SP, NBSP, ZWNBSP and the space separators) and LineTerminator
  (LF, CR, LS, PS).
\<close>

definition is_js_whitespace :: "u16 \<Rightarrow> bool" where
  "is_js_whitespace u \<longleftrightarrow>
     u \<in> set [0x0009, 0x000A, 0x000B, 0x000C, 0x000D, 0x0020, 0x00A0, 0x1680,
              0x2028, 0x2029, 0x202F, 0x205F, 0x3000, 0xFEFF]
     \<or> (0x2000 \<le> u \<and> u \<le> 0x200A)"

definition js_trim :: "js_string \<Rightarrow> js_string" where
  "js_trim s = rev (dropWhile is_js_whitespace (rev (dropWhile is_js_whitespace s)))"

text \<open>\<^verbatim>\<open>s.includes(p)\<close>: \<open>p\<close> occurs in \<open>s\<close> as a contiguous run of code units.\<close>

fun js_includes :: "js_string \<Rightarrow> js_string \<Rightarrow> bool" where
  "js_includes [] p = (p = [])"
| "js_includes (u # s) p = (prefix p (u # s) \<or> js_includes s p)"

text \<open>
  \<^verbatim>\<open>s.substring(a, b)\<close> for integral arguments: both are clamped to
  \<open>[0, length s]\<close> and swapped when \<open>a > b\<close>; \<^verbatim>\<open>s.substring(a)\<close> runs to the end.
\<close>

definition js_substring :: "js_string \<Rightarrow> int \<Rightarrow> int \<Rightarrow> js_string" where
  "js_substring s a b =
     (let n = int (length s);
          a' = min (max a 0) n;
          b' = min (max b 0) n;
          lo = min a' b';
          hi = max a' b'
      in take (nat (hi - lo)) (drop (nat lo) s))"

definition js_substring_from :: "js_string \<Rightarrow> int \<Rightarrow> js_string" where
  "js_substring_from s a = js_substring s a (int (length s))"

abbreviation LF :: u16 where "LF \<equiv> 0x0A"

section \<open>Predicates on strings\<close>

text \<open>
  The strings the iterator can yield: one code unit, or a high surrogate and a low one.
\<close>

definition is_char :: "js_string \<Rightarrow> bool" where
  "is_char c = (case c of [u] \<Rightarrow> True
     | [u, v] \<Rightarrow> is_high_surrogate u \<and> is_low_surrogate v | _ \<Rightarrow> False)"

text \<open>
  Well-formed UTF-16: every surrogate is half of a pair, so that every character the
  iterator yields is a code point.
\<close>

definition is_surrogate :: "u16 \<Rightarrow> bool" where
  "is_surrogate u \<longleftrightarrow> is_high_surrogate u \<or> is_low_surrogate u"

definition well_formed :: "js_string \<Rightarrow> bool" where
  "well_formed s = list_all (\<lambda>c. length c = 2 \<or> \<not> is_surrogate (hd c)) (js_chars s)"

text \<open>String literals of the examples: ASCII text as code units.\<close>

definition js_str :: "string \<Rightarrow> js_string" where
  "js_str s = map (\<lambda>c. of_nat (of_char c)) s"

text \<open>A string that neither starts nor ends with white space; \<open>js_trim\<close> leaves it alone.\<close>

definition trimmed :: "js_string \<Rightarrow> bool" where
  "trimmed s \<longleftrightarrow> (s = [] \<or> (\<not> is_js_whitespace (hd s) \<and> \<not> is_js_whitespace (last s)))"

section \<open>Surrogates and whitespace\<close>

lemma whitespace_not_surrogate:
  "is_js_whitespace u \<Longrightarrow> \<not> is_high_surrogate u \<and> \<not> is_low_surrogate u"
  unfolding is_js_whitespace_def is_high_surrogate_def is_low_surrogate_def
  by (auto simp: word_le_nat_alt)

lemma LF_whitespace [simp]: "is_js_whitespace LF"
  by (simp add: is_js_whitespace_def)

lemma high_surrogate_not_lt_256: "is_high_surrogate u \<Longrightarrow> \<not> u < 256"
  by (auto simp: is_high_surrogate_def word_le_nat_alt word_less_nat_alt)

lemma low_not_high_surrogate: "is_low_surrogate u \<Longrightarrow> \<not> is_high_surrogate u"
  by (auto simp: is_high_surrogate_def is_low_surrogate_def word_le_nat_alt)

lemma LF_not_surrogate [simp]: "\<not> is_high_surrogate LF" "\<not> is_low_surrogate LF"
  using whitespace_not_surrogate [of LF] by simp_all

section \<open>The iterator\<close>

lemma concat_js_chars [simp]: "concat (js_chars s) = s"
  by (induction s rule: js_chars.induct) auto

lemma js_chars_nonempty: "c \<in> set (js_chars s) \<Longrightarrow> c \<noteq> []"
  by (induction s rule: js_chars.induct) (auto split: if_splits)

lemma js_chars_eq_Nil [simp]: "js_chars s = [] \<longleftrightarrow> s = []"
  by (cases s rule: js_chars.cases) auto

lemma js_chars_Cons_plain:
  "\<not> is_high_surrogate u \<Longrightarrow> js_chars (u # s) = [u] # js_chars s"
  by (cases s) auto

lemma js_chars_snoc_plain:
  "\<not> is_low_surrogate u \<Longrightarrow> js_chars (s @ [u]) = js_chars s @ [[u]]"
  by (induction s rule: js_chars.induct) auto

lemma js_chars_append_plain:
  "\<not> is_low_surrogate u \<Longrightarrow> \<not> is_high_surrogate u \<Longrightarrow>
   js_chars (s @ u # t) = js_chars s @ [u] # js_chars t"
proof (induction s rule: js_chars.induct)
  case 1
  then show ?case by (simp add: js_chars_Cons_plain)
next
  case (2 v)
  then show ?case by (simp add: js_chars_Cons_plain)
next
  case (3 v w s)
  then show ?case by auto
qed

lemma is_char_cases:
  assumes "is_char c"
  obtains (unit) u where "c = [u]"
  | (pair) u v where "c = [u, v]" "is_high_surrogate u" "is_low_surrogate v"
  using assms by (auto simp: is_char_def split: list.splits)

lemma js_chars_is_char: "c \<in> set (js_chars s) \<Longrightarrow> is_char c"
  by (induction s rule: js_chars.induct) (auto simp: is_char_def split: if_splits)

text \<open>
  Characters that are code points can be concatenated and iterated again without
  change: no two of them pair up.
\<close>

lemma js_chars_concat_good:
  "\<forall>c\<in>set cs. is_char c \<and> (length c = 2 \<or> \<not> is_surrogate (hd c)) \<Longrightarrow>
   js_chars (concat cs) = cs"
proof (induction cs)
  case Nil
  then show ?case by simp
next
  case (Cons c cs)
  then have "is_char c" by simp
  then show ?case
  proof (cases rule: is_char_cases)
    case (unit u)
    with Cons show ?thesis by (simp add: js_chars_Cons_plain is_surrogate_def)
  next
    case (pair u v)
    with Cons show ?thesis by simp
  qed
qed

text \<open>A line feed is never half of a surrogate pair: the iterator yields it alone.\<close>

lemma LF_char_iff: "[LF] \<in> set (js_chars s) \<longleftrightarrow> LF \<in> set s"
proof
  assume "[LF] \<in> set (js_chars s)"
  then have "LF \<in> set (concat (js_chars s))"
    unfolding set_concat by force
  then show "LF \<in> set s" by simp
next
  show "LF \<in> set s \<Longrightarrow> [LF] \<in> set (js_chars s)"
    by (induction s rule: js_chars.induct) auto
qed

section \<open>includes\<close>

lemma js_includes_single [js_string_simps]: "js_includes s [c] \<longleftrightarrow> c \<in> set s"
  by (induction s) auto

lemma js_includes_prefix: "prefix p s \<Longrightarrow> js_includes s p"
  by (cases s) auto

lemma js_includes_iff: "js_includes s p \<longleftrightarrow> (\<exists>xs ys. s = xs @ p @ ys)"
proof (induction s)
  case Nil
  then show ?case by auto
next
  case (Cons u s)
  show ?case
  proof
    assume "js_includes (u # s) p"
    then consider "prefix p (u # s)" | "js_includes s p" by auto
    then show "\<exists>xs ys. u # s = xs @ p @ ys"
    proof cases
      case 1
      then obtain ys where "u # s = p @ ys" by (auto simp: prefix_def)
      then have "u # s = [] @ p @ ys" by simp
      then show ?thesis by blast
    next
      case 2
      with Cons.IH obtain xs ys where "s = xs @ p @ ys" by blast
      then have "u # s = (u # xs) @ p @ ys" by simp
      then show ?thesis by blast
    qed
  next
    assume "\<exists>xs ys. u # s = xs @ p @ ys"
    then obtain xs ys where eq: "u # s = xs @ p @ ys" by blast
    show "js_includes (u # s) p"
    proof (cases xs)
      case Nil
      with eq have "prefix p (u # s)" by simp
      then show ?thesis by (rule js_includes_prefix)
    next
      case (Cons x xs')
      with eq have "s = xs' @ p @ ys" by simp
      with Cons.IH show ?thesis by auto
    qed
  qed
qed

section \<open>trim\<close>

lemma js_trim_Nil [simp]: "js_trim [] = []"
  by (simp add: js_trim_def)

lemma js_trim_eq_Nil_iff [js_string_simps]:
  "js_trim s = [] \<longleftrightarrow> (\<forall>u\<in>set s. is_js_whitespace u)"
proof -
  have "js_trim s = [] \<longleftrightarrow> (\<forall>u\<in>set (dropWhile is_js_whitespace s). is_js_whitespace u)"
    by (simp add: js_trim_def dropWhile_eq_Nil_iff)
  also have "\<dots> \<longleftrightarrow> dropWhile is_js_whitespace s = []"
    using dropWhile_hd_not [of is_js_whitespace s]
    by (cases "dropWhile is_js_whitespace s") auto
  finally show ?thesis by (simp add: dropWhile_eq_Nil_iff)
qed

lemma filter_js_trim [simp]:
  "filter (\<lambda>u. \<not> is_js_whitespace u) (js_trim s) = filter (\<lambda>u. \<not> is_js_whitespace u) s"
  by (simp add: js_trim_def flip: rev_filter)

lemma length_js_trim [simp]: "length (js_trim s) \<le> length s"
proof -
  have "length (js_trim s) \<le> length (dropWhile is_js_whitespace s)"
    unfolding js_trim_def length_rev
    by (rule order_trans [OF length_dropWhile_le']) simp
  then show ?thesis
    by (rule order_trans) simp
qed

lemma js_trim_trimmed: "trimmed s \<Longrightarrow> js_trim s = s"
proof (cases "s = []")
  case True
  then show ?thesis by simp
next
  case False
  assume "trimmed s"
  with False have "\<not> is_js_whitespace (hd s)" and "\<not> is_js_whitespace (hd (rev s))"
    by (simp_all add: trimmed_def hd_rev)
  with False show ?thesis
    by (simp add: js_trim_def dropWhile_hd_id)
qed

lemma trimmed_js_trim [simp]: "trimmed (js_trim s)"
proof (cases "js_trim s = []")
  case True
  then show ?thesis by (simp add: trimmed_def)
next
  case False
  let ?d = "dropWhile is_js_whitespace s" and ?r = "dropWhile is_js_whitespace (rev (dropWhile is_js_whitespace s))"
  from False have r: "?r \<noteq> []"
    by (simp add: js_trim_def)
  then have d: "?d \<noteq> []"
    by (metis dropWhile.simps(1) rev.simps(1))
  from r have "\<not> is_js_whitespace (hd ?r)" by (rule dropWhile_hd_not)
  then have last: "\<not> is_js_whitespace (last (js_trim s))"
    using r by (simp add: js_trim_def last_rev)
  have "suffix ?r (rev ?d)" by (rule dropWhile_suffix)
  then obtain ws where "rev ?d = ws @ ?r" by (auto simp: suffix_def)
  with r have "last ?r = last (rev ?d)" by (metis last_appendR)
  with r d have "hd (js_trim s) = hd ?d" by (simp add: js_trim_def hd_rev last_rev)
  with dropWhile_hd_not [OF d] last False show ?thesis by (simp add: trimmed_def)
qed

lemma js_trim_idem [simp]: "js_trim (js_trim s) = js_trim s"
  by (simp add: js_trim_trimmed)

text \<open>Trimming removes whole characters: white space is never part of a pair.\<close>

lemma js_chars_dropWhile_ws:
  "set (js_chars (dropWhile is_js_whitespace s)) \<subseteq> set (js_chars s)"
  by (induction s) (auto simp: js_chars_Cons_plain whitespace_not_surrogate)

lemma js_chars_rev_dropWhile_ws:
  "set (js_chars (rev (dropWhile is_js_whitespace (rev s)))) \<subseteq> set (js_chars s)"
  by (induction s rule: rev_induct) (auto simp: js_chars_snoc_plain whitespace_not_surrogate)

lemma js_chars_trim_subset: "set (js_chars (js_trim s)) \<subseteq> set (js_chars s)"
  unfolding js_trim_def
  using js_chars_rev_dropWhile_ws js_chars_dropWhile_ws by blast

section \<open>substring\<close>

lemma js_substring_prefix [js_string_simps]:
  "0 \<le> k \<Longrightarrow> js_substring s 0 k = take (nat k) s"
  by (auto simp: js_substring_def Let_def min_def max_def)

lemma js_substring_from_drop [js_string_simps]:
  "0 \<le> k \<Longrightarrow> js_substring_from s k = drop (nat k) s"
  by (auto simp: js_substring_from_def js_substring_def Let_def min_def max_def)

lemma js_substring_split:
  "0 \<le> k \<Longrightarrow> js_substring s 0 k @ js_substring_from s k = s"
  by (simp add: js_string_simps)

end
