(* ===== verification/Text_Lines.thy ===== *)
theory Text_Lines
  imports JS_String
begin

text \<open>
  The line splitter, \<^verbatim>\<open>textToLines\<close> of \<^verbatim>\<open>src/index.js\<close>: the scanning loop with
  its three mutable variables as a record and a step function, the filter of empty
  lines, the early return for text with line feeds, and the rebalancing of the last two
  lines, which reads \<^verbatim>\<open>result[result.length - 1]\<close> and raises \<^verbatim>\<open>TypeError\<close> when
  there is no line at all.
\<close>

section \<open>The scanning loop\<close>

text \<open>The variables \<^verbatim>\<open>lines\<close>, \<^verbatim>\<open>line\<close> and \<^verbatim>\<open>ctr\<close> of the closure.\<close>

record split_state =
  lines :: "js_string list"
  line :: js_string
  ctr :: int

definition init_split :: split_state where
  "init_split = \<lparr>lines = [], line = [], ctr = 0\<rparr>"

definition addLine :: "split_state \<Rightarrow> split_state" where
  "addLine st = \<lparr>lines = lines st @ [js_trim (line st)], line = [], ctr = 0\<rparr>"

text \<open>The width a character adds to the counter: 1 below code 256, else 2.\<close>

definition char_units :: "js_string \<Rightarrow> int" where
  "char_units c = (if char_code_lt_256 c then 1 else 2)"

text \<open>One round of the \<^verbatim>\<open>for\<close> loop, for the character \<open>c\<close> and the limit \<open>mx\<close>.\<close>

definition scan_char :: "int \<Rightarrow> split_state \<Rightarrow> js_string \<Rightarrow> split_state" where
  "scan_char mx st c =
     (if c = [LF] then addLine st
      else let st' = st\<lparr>line := line st @ c, ctr := ctr st + char_units c\<rparr>
           in if ctr st' \<ge> mx then addLine st' else st')"

text \<open>The whole loop over the characters of the text, and the \<^verbatim>\<open>addLine()\<close> after it.\<close>

definition scan_text :: "int \<Rightarrow> js_string \<Rightarrow> split_state" where
  "scan_text mx text = addLine (foldl (scan_char mx) init_split (js_chars text))"

section \<open>Rebalancing and the function itself\<close>

text \<open>
  The tail of the function, from \<^verbatim>\<open>const last = \<dots>\<close> on. On an empty \<open>result\<close>
  the read \<^verbatim>\<open>last.length\<close> is a property access on \<^verbatim>\<open>undefined\<close> and throws.
  \<^verbatim>\<open>last2\<close> is \<^verbatim>\<open>undefined\<close> when there is one line only; the test \<^verbatim>\<open>last2 && \<dots>\<close>
  also fails on the empty string.
\<close>

definition rebalance :: "js_string list \<Rightarrow> js_error + js_string list" where
  "rebalance result =
     (if result = [] then Inl TypeError
      else
        let n = length result;
            lst = result ! (n - 1)
        in if length lst < 3 \<and> (2 \<le> n \<and> result ! (n - 2) \<noteq> [])
              \<and> length (result ! (n - 2)) > 5
           then
             let lst2 = result ! (n - 2);
                 k = int (length lst2) - 2
             in Inr (result[n - 1 := js_substring_from lst2 k @ lst,
                            n - 2 := js_substring lst2 0 k])
           else Inr result)"

definition textToLines :: "js_string \<Rightarrow> int \<Rightarrow> js_error + js_string list" where
  "textToLines text mx =
     (let result = filter (\<lambda>l. l \<noteq> []) (lines (scan_text mx text))
      in if js_includes text [LF] then Inr result else rebalance result)"

text \<open>The call with the default limit, as \<^verbatim>\<open>parseTextOption\<close> makes it.\<close>

abbreviation textToLines16 :: "js_string \<Rightarrow> js_error + js_string list" where
  "textToLines16 text \<equiv> textToLines text 16"

section \<open>The loop as a list of chunks\<close>

text \<open>
  What the loop computes, without the mutable state: the characters are cut into
  chunks, a chunk ending at a line feed (which is dropped), at the character that
  brings the width of the chunk to the limit, or at the end of the text. \<open>cur\<close> is the
  chunk under construction and \<open>n\<close> its width.
\<close>

fun chunks :: "int \<Rightarrow> js_string list \<Rightarrow> int \<Rightarrow> js_string list \<Rightarrow> js_string list list" where
  "chunks mx cur n [] = [cur]"
| "chunks mx cur n (c # cs) =
     (if c = [LF] then cur # chunks mx [] 0 cs
      else if n + char_units c \<ge> mx then (cur @ [c]) # chunks mx [] 0 cs
      else chunks mx (cur @ [c]) (n + char_units c) cs)"

text \<open>
  The width of a string in the units of the counter: the sum over its characters.
\<close>

definition str_units :: "js_string \<Rightarrow> int" where
  "str_units s = sum_list (map char_units (js_chars s))"

text \<open>
  \<^verbatim>\<open>lines.join('\n')\<close>, and the lines that survive a round trip through it: no line
  feed inside, nothing to trim, and narrower than the limit.
\<close>

fun js_join_lf :: "js_string list \<Rightarrow> js_string" where
  "js_join_lf [] = []"
| "js_join_lf [l] = l"
| "js_join_lf (l # m # ls) = l @ LF # js_join_lf (m # ls)"

definition short_line :: "int \<Rightarrow> js_string \<Rightarrow> bool" where
  "short_line mx l \<longleftrightarrow> LF \<notin> set l \<and> trimmed l \<and> str_units l < mx"

abbreviation not_ws :: "u16 \<Rightarrow> bool" where
  "not_ws u \<equiv> \<not> is_js_whitespace u"

section \<open>Basic facts\<close>

lemmas text_lines_defs [xibao_defs] =
  init_split_def addLine_def char_units_def scan_char_def scan_text_def
  rebalance_def textToLines_def

lemma addLine_simps [simp]:
  "lines (addLine st) = lines st @ [js_trim (line st)]"
  "line (addLine st) = []" "ctr (addLine st) = 0"
  by (simp_all add: addLine_def)

lemma scan_char_LF [simp]: "scan_char mx st [LF] = addLine st"
  by (simp add: scan_char_def)

text \<open>
  The refinement of the loop by \<open>chunks\<close>: from any state whose pending line is the
  chunk \<open>cur\<close>, running the loop and the final \<^verbatim>\<open>addLine()\<close> appends the trimmed
  chunks to the lines already there.
\<close>

lemma scan_chunks:
  "line st = concat cur \<Longrightarrow>
   lines (addLine (foldl (scan_char mx) st cs))
     = lines st @ map (js_trim \<circ> concat) (chunks mx cur (ctr st) cs)"
proof (induction cs arbitrary: st cur)
  case Nil
  then show ?case by simp
next
  case (Cons c cs)
  show ?case
  proof (cases "c = [LF]")
    case True
    have "line (addLine st) = concat []" by simp
    from Cons.IH [OF this] True Cons.prems show ?thesis by simp
  next
    case False
    let ?st' = "st\<lparr>line := line st @ c, ctr := ctr st + char_units c\<rparr>"
    show ?thesis
    proof (cases "ctr st + char_units c \<ge> mx")
      case True
      have "line (addLine ?st') = concat []" by simp
      from Cons.IH [OF this] True False Cons.prems show ?thesis
        by (simp add: scan_char_def)
    next
      case flush: False
      have "line ?st' = concat (cur @ [c])" using Cons.prems by simp
      from Cons.IH [OF this] flush False show ?thesis
        by (simp add: scan_char_def)
    qed
  qed
qed

lemma lines_scan_text:
  "lines (scan_text mx text) = map (js_trim \<circ> concat) (chunks mx [] 0 (js_chars text))"
  using scan_chunks [of init_split "[]" mx "js_chars text"]
  by (simp add: scan_text_def init_split_def)

section \<open>Widths\<close>

lemma char_units_pos: "0 < char_units c" "char_units c \<le> 2"
  by (simp_all add: char_units_def)

lemma char_units_pair [simp]: "is_high_surrogate u \<Longrightarrow> char_units (u # s) = 2"
  by (simp add: char_units_def char_code_lt_256_def high_surrogate_not_lt_256)

lemma str_units_Nil [simp]: "str_units [] = 0"
  by (simp add: str_units_def)

lemma str_units_nonneg [simp]: "0 \<le> str_units s"
  unfolding str_units_def
  by (rule sum_list_nonneg) (auto simp: char_units_def)

lemma str_units_Cons_plain:
  "\<not> is_high_surrogate u \<Longrightarrow> str_units (u # s) = char_units [u] + str_units s"
  by (simp add: str_units_def js_chars_Cons_plain)

lemma str_units_Cons_pair:
  "is_high_surrogate u \<Longrightarrow> is_low_surrogate v \<Longrightarrow> str_units (u # v # s) = 2 + str_units s"
  by (simp add: str_units_def)

lemma str_units_snoc_plain:
  "\<not> is_low_surrogate u \<Longrightarrow> str_units (s @ [u]) = str_units s + char_units [u]"
  by (simp add: str_units_def js_chars_snoc_plain)

lemma str_units_Cons_ge: "str_units s \<le> str_units (v # s)"
proof (cases s)
  case Nil
  then show ?thesis by simp
next
  case (Cons w r)
  show ?thesis
  proof (cases "is_high_surrogate v \<and> is_low_surrogate w")
    case True
    then have "\<not> is_high_surrogate w"
      by (simp add: low_not_high_surrogate)
    with True Cons show ?thesis
      by (simp add: str_units_Cons_pair str_units_Cons_plain char_units_def)
  next
    case False
    with Cons have "str_units (v # s) = char_units [v] + str_units s"
      by (auto simp: str_units_def)
    with char_units_pos(1) [of "[v]"] show ?thesis by simp
  qed
qed

lemma str_units_Cons_le: "str_units (u # s) \<le> char_units [u] + str_units s"
proof (cases s)
  case Nil
  then show ?thesis by (simp add: str_units_def)
next
  case (Cons w r)
  show ?thesis
  proof (cases "is_high_surrogate u \<and> is_low_surrogate w")
    case True
    with Cons str_units_Cons_ge [of r w] show ?thesis
      by (simp add: str_units_Cons_pair)
  next
    case False
    with Cons show ?thesis by (auto simp: str_units_def)
  qed
qed

lemma str_units_concat_le:
  "\<forall>c\<in>set cs. is_char c \<Longrightarrow> str_units (concat cs) \<le> sum_list (map char_units cs)"
proof (induction cs)
  case Nil
  then show ?case by simp
next
  case (Cons c cs)
  then have IH: "str_units (concat cs) \<le> sum_list (map char_units cs)" by simp
  from Cons.prems have "is_char c" by simp
  then show ?case
  proof (cases rule: is_char_cases)
    case (unit u)
    with IH str_units_Cons_le [of u "concat cs"] show ?thesis by simp
  next
    case (pair u v)
    with IH show ?thesis by (simp add: str_units_Cons_pair)
  qed
qed

lemma str_units_dropWhile_ws: "str_units (dropWhile is_js_whitespace s) \<le> str_units s"
proof (induction s)
  case Nil
  then show ?case by simp
next
  case (Cons u s)
  show ?case
  proof (cases "is_js_whitespace u")
    case True
    then have "str_units (u # s) = char_units [u] + str_units s"
      by (simp add: str_units_Cons_plain whitespace_not_surrogate)
    with Cons True char_units_pos(1) [of "[u]"] show ?thesis by simp
  next
    case False
    then show ?thesis by simp
  qed
qed

lemma str_units_rev_dropWhile_ws:
  "str_units (rev (dropWhile is_js_whitespace (rev s))) \<le> str_units s"
proof (induction s rule: rev_induct)
  case Nil
  then show ?case by simp
next
  case (snoc u s)
  show ?case
  proof (cases "is_js_whitespace u")
    case True
    then have "str_units (s @ [u]) = str_units s + char_units [u]"
      by (simp add: str_units_snoc_plain whitespace_not_surrogate)
    with snoc True char_units_pos(1) [of "[u]"] show ?thesis by simp
  next
    case False
    then show ?thesis by simp
  qed
qed

lemma str_units_js_trim: "str_units (js_trim s) \<le> str_units s"
  unfolding js_trim_def
  by (rule order_trans [OF str_units_rev_dropWhile_ws str_units_dropWhile_ws])

lemma str_units_take: "str_units (take k s) \<le> str_units s"
proof (induction s arbitrary: k rule: js_chars.induct)
  case 1
  then show ?case by simp
next
  case (2 u)
  then show ?case by (cases k) simp_all
next
  case (3 u v s)
  show ?case
  proof (cases k)
    case 0
    then show ?thesis by simp
  next
    case (Suc k')
    show ?thesis
    proof (cases "is_high_surrogate u \<and> is_low_surrogate v")
      case True
      show ?thesis
      proof (cases k')
        case 0
        from True have "str_units [u] = 2" by (simp add: str_units_def)
        with 0 Suc True show ?thesis
          by (simp add: str_units_Cons_pair)
      next
        case (Suc k'')
        with \<open>k = Suc k'\<close> True "3.IH"(1) [of k''] show ?thesis
          by (simp add: str_units_Cons_pair)
      qed
    next
      case False
      with "3.IH"(2) [of k'] have IH: "str_units (take k' (v # s)) \<le> str_units (v # s)" 
        by simp
      have "str_units (u # take k' (v # s)) \<le> char_units [u] + str_units (take k' (v # s))"
        by (rule str_units_Cons_le)
      moreover from False have "str_units (u # v # s) = char_units [u] + str_units (v # s)"
        by (auto simp: str_units_def)
      ultimately show ?thesis using Suc IH by simp
    qed
  qed
qed

section \<open>Properties of the chunks\<close>

lemma chunks_concat:
  "concat (concat (chunks mx cur n cs)) = concat cur @ concat (filter (\<lambda>c. c \<noteq> [LF]) cs)"
  by (induction cs arbitrary: cur n) auto

lemma chunks_ConsE:
  assumes "ch \<in> set (chunks mx cur n (c # cs))"
  obtains (cur) "ch = cur" "c = [LF]"
  | (flush) "ch = cur @ [c]" "c \<noteq> [LF]" "mx \<le> n + char_units c"
  | (rest) "ch \<in> set (chunks mx [] 0 cs)"
  | (cont) "ch \<in> set (chunks mx (cur @ [c]) (n + char_units c) cs)"
      "c \<noteq> [LF]" "\<not> mx \<le> n + char_units c"
  using assms by (auto split: if_splits)

lemma chunks_subset:
  "ch \<in> set (chunks mx cur n cs) \<Longrightarrow> set ch \<subseteq> set cur \<union> set cs"
proof (induction cs arbitrary: cur n)
  case Nil
  then show ?case by simp
next
  case (Cons c cs)
  from Cons.prems show ?case
  proof (cases rule: chunks_ConsE)
    case rest
    from Cons.IH [OF this] show ?thesis by auto
  next
    case cont
    from Cons.IH [OF this(1)] show ?thesis by auto
  qed auto
qed

lemma chunks_width:
  "sum_list (map char_units cur) = n \<Longrightarrow> cur = [] \<or> n < mx \<Longrightarrow>
   ch \<in> set (chunks mx cur n cs) \<Longrightarrow> sum_list (map char_units ch) \<le> max (mx + 1) 2"
proof (induction cs arbitrary: cur n)
  case Nil
  then show ?case by auto
next
  case (Cons c cs)
  note units = char_units_pos [of c]
  from Cons.prems(3) show ?case
  proof (cases rule: chunks_ConsE)
    case cur
    with Cons.prems show ?thesis by auto
  next
    case flush
    with Cons.prems units show ?thesis by auto
  next
    case rest
    then show ?thesis by (intro Cons.IH [of "[]" 0]) auto
  next
    case cont
    with Cons.prems show ?thesis
      by (intro Cons.IH [of "cur @ [c]" "n + char_units c"]) auto
  qed
qed

lemma str_units_le_length: "str_units s \<le> 2 * int (length s)"
proof (induction s)
  case Nil
  then show ?case by simp
next
  case (Cons u s)
  with str_units_Cons_le [of u s] char_units_pos(2) [of "[u]"] show ?case by simp
qed

lemma lines_width:
  assumes "l \<in> set (lines (scan_text mx text))"
  shows "str_units l \<le> max (mx + 1) 2"
proof -
  from assms obtain ch where ch: "ch \<in> set (chunks mx [] 0 (js_chars text))"
    and l: "l = js_trim (concat ch)"
    by (auto simp: lines_scan_text)
  from chunks_subset [OF ch] have "\<forall>c\<in>set ch. is_char c"
    by (auto intro: js_chars_is_char)
  then have "str_units (concat ch) \<le> sum_list (map char_units ch)"
    by (rule str_units_concat_le)
  also have "\<dots> \<le> max (mx + 1) 2"
    by (rule chunks_width [OF _ _ ch]) simp_all
  finally show ?thesis
    using str_units_js_trim [of "concat ch"] l by simp
qed

lemma lines_content:
  "filter not_ws (concat (lines (scan_text mx text))) = filter not_ws text"
proof -
  have 1: "filter not_ws (concat (map (js_trim \<circ> concat) chs)) = filter not_ws (concat (concat chs))" for chs
    by (induction chs) simp_all
  have 2: "filter not_ws (concat (filter (\<lambda>c. c \<noteq> [LF]) cs)) = filter not_ws (concat cs)" for cs
    by (induction cs) auto
  show ?thesis
    by (simp add: lines_scan_text 1 chunks_concat 2)
qed

lemma lines_all_empty_iff:
  "filter (\<lambda>l. l \<noteq> []) (lines (scan_text mx text)) = [] \<longleftrightarrow> (\<forall>u\<in>set text. is_js_whitespace u)"
proof -
  have 1: "(\<forall>u\<in>set (concat (filter (\<lambda>c. c \<noteq> [LF]) cs)). is_js_whitespace u)
      \<longleftrightarrow> (\<forall>u\<in>set (concat cs). is_js_whitespace u)" for cs
    by (induction cs) auto
  have "filter (\<lambda>l. l \<noteq> []) (lines (scan_text mx text)) = []
     \<longleftrightarrow> (\<forall>ch\<in>set (chunks mx [] 0 (js_chars text)). js_trim (concat ch) = [])"
    by (simp add: lines_scan_text filter_empty_conv)
  also have "\<dots> \<longleftrightarrow> (\<forall>u\<in>set (concat (concat (chunks mx [] 0 (js_chars text)))). is_js_whitespace u)"
    by (auto simp: js_string_simps)
  finally show ?thesis
    by (simp only: chunks_concat 1 concat.simps append_Nil concat_js_chars)
qed

lemma lines_well_formed:
  assumes "well_formed text" and "l \<in> set (lines (scan_text mx text))"
  shows "well_formed l"
proof -
  from assms(2) obtain ch where ch: "ch \<in> set (chunks mx [] 0 (js_chars text))"
    and l: "l = js_trim (concat ch)"
    by (auto simp: lines_scan_text)
  from chunks_subset [OF ch] assms(1)
  have good: "\<forall>c\<in>set ch. is_char c \<and> (length c = 2 \<or> \<not> is_surrogate (hd c))"
    by (auto simp: well_formed_def list_all_iff intro: js_chars_is_char)
  then have "js_chars (concat ch) = ch" by (rule js_chars_concat_good)
  with js_chars_trim_subset [of "concat ch"] l good show ?thesis
    by (auto simp: well_formed_def list_all_iff)
qed

section \<open>Rebalancing\<close>

lemma rebalance_Nil [simp]: "rebalance [] = Inl TypeError"
  by (simp add: rebalance_def)

lemma rebalance_single [simp]: "rebalance [x] = Inr [x]"
  by (simp add: rebalance_def)

lemma rebalance_two_last:
  "rebalance (ys @ [y, z]) =
     (if length z < 3 \<and> length y > 5
      then Inr (ys @ [take (length y - 2) y, drop (length y - 2) y @ z])
      else Inr (ys @ [y, z]))"
proof -
  have k: "nat (int (length y) - 2) = length y - 2" by simp
  show ?thesis
    by (auto simp: rebalance_def Let_def js_string_simps k simp del: of_nat_diff)
qed

lemma rebalance_cases [case_names error single same moved]:
  obtains (error) "r = []" "rebalance r = Inl TypeError"
  | (single) x where "r = [x]" "rebalance r = Inr r"
  | (same) ys y z where "r = ys @ [y, z]" "\<not> (length z < 3 \<and> length y > 5)" "rebalance r = Inr r"
  | (moved) ys y z where "r = ys @ [y, z]" "length z < 3" "length y > 5"
      "rebalance r = Inr (ys @ [take (length y - 2) y, drop (length y - 2) y @ z])"
proof (cases r rule: list_two_last_cases)
  case nil
  then show ?thesis by (simp add: error)
next
  case (one x)
  then show ?thesis by (simp add: single)
next
  case (more ys y z)
  then show ?thesis
    by (cases "length z < 3 \<and> length y > 5") (auto simp: rebalance_two_last intro: same moved)
qed

lemma rebalance_concat: "rebalance r = Inr ls \<Longrightarrow> concat ls = concat r"
  by (cases r rule: rebalance_cases) auto

lemma rebalance_length: "rebalance r = Inr ls \<Longrightarrow> length ls = length r"
  by (cases r rule: rebalance_cases) auto

lemma rebalance_nonempty: "rebalance r = Inr ls \<Longrightarrow> [] \<notin> set r \<Longrightarrow> [] \<notin> set ls"
  by (cases r rule: rebalance_cases) auto

lemma rebalance_error_iff: "rebalance r = Inl e \<longleftrightarrow> r = [] \<and> e = TypeError"
  by (cases r rule: rebalance_cases; cases e) auto

lemma textToLines_preformatted:
  "LF \<in> set text \<Longrightarrow>
   textToLines text mx = Inr (filter (\<lambda>l. l \<noteq> []) (lines (scan_text mx text)))"
  by (simp add: textToLines_def js_string_simps)

lemma textToLines_plain:
  "LF \<notin> set text \<Longrightarrow>
   textToLines text mx = rebalance (filter (\<lambda>l. l \<noteq> []) (lines (scan_text mx text)))"
  by (simp add: textToLines_def js_string_simps)

section \<open>Lines joined by line feeds\<close>

lemma chunks_no_break:
  "[LF] \<notin> set cs \<Longrightarrow> n + sum_list (map char_units cs) < mx \<Longrightarrow>
   chunks mx cur n cs = [cur @ cs]"
proof (induction cs arbitrary: cur n)
  case Nil
  then show ?case by simp
next
  case (Cons c cs)
  have "0 \<le> sum_list (map char_units cs)"
    by (rule sum_list_nonneg) (auto simp: char_units_def)
  with Cons.prems have "\<not> mx \<le> n + char_units c" by simp
  with Cons.prems Cons.IH [of "n + char_units c" "cur @ [c]"] show ?case 
    by (auto simp: add.assoc)
qed

lemma chunks_line:
  "[LF] \<notin> set cs \<Longrightarrow> n + sum_list (map char_units cs) < mx \<Longrightarrow>
   chunks mx cur n (cs @ [LF] # cs') = (cur @ cs) # chunks mx [] 0 cs'"
proof (induction cs arbitrary: cur n)
  case Nil
  then show ?case by simp
next
  case (Cons c cs)
  have "0 \<le> sum_list (map char_units cs)"
    by (rule sum_list_nonneg) (auto simp: char_units_def)
  with Cons.prems have "\<not> mx \<le> n + char_units c" by simp
  with Cons.prems Cons.IH [of "n + char_units c" "cur @ [c]"] show ?case 
    by (auto simp: add.assoc)
qed

lemma chunks_join:
  "ls \<noteq> [] \<Longrightarrow> \<forall>l\<in>set ls. short_line mx l \<Longrightarrow>
   chunks mx [] 0 (js_chars (js_join_lf ls)) = map js_chars ls"
proof (induction ls rule: js_join_lf.induct)
  case 1
  then show ?case by simp
next
  case (2 l)
  then show ?case
    by (simp add: short_line_def chunks_no_break LF_char_iff flip: str_units_def)
next
  case (3 l m ls)
  then show ?case
    by (simp add: short_line_def js_chars_append_plain chunks_line LF_char_iff flip: str_units_def)
qed

lemma lines_join:
  assumes "ls \<noteq> []" and "\<forall>l\<in>set ls. short_line mx l"
  shows "lines (scan_text mx (js_join_lf ls)) = ls"
proof -
  have "map (js_trim \<circ> concat \<circ> js_chars) ls = ls"
    using assms(2) by (induction ls) (simp_all add: short_line_def js_trim_trimmed)
  with assms show ?thesis
    by (simp add: lines_scan_text chunks_join)
qed

lemma LF_join_iff:
  "LF \<in> set (js_join_lf ls) \<longleftrightarrow> 2 \<le> length ls \<or> (\<exists>l\<in>set ls. LF \<in> set l)"
  by (induction ls rule: js_join_lf.induct) auto

section \<open>Correctness of the line splitter\<close>

text \<open>
  C18. The scanning loop of \<^verbatim>\<open>textToLines\<close> (the state record threaded through
  \<open>scan_char\<close>, then the closing \<^verbatim>\<open>addLine()\<close>) refines the chunk specification: the
  lines it collects are exactly the trimmed chunks of the characters of the text, in
  order.
\<close>

theorem scan_text_chunks:
  "lines (scan_text mx text) = map (js_trim \<circ> concat) (chunks mx [] 0 (js_chars text))"
  using scan_chunks [of init_split "[]" mx "js_chars text"]
  by (simp add: scan_text_def init_split_def)

text \<open>
  C6. \<^verbatim>\<open>textToLines\<close> throws \<^verbatim>\<open>TypeError\<close> exactly on the texts that have no line
  feed and consist of white space only, the empty text among them: no line survives the
  filter and \<^verbatim>\<open>last.length\<close> is read from \<^verbatim>\<open>undefined\<close>. On every other text it
  returns a list of lines.
\<close>

theorem textToLines_error_iff:
  "textToLines text mx = Inl TypeError \<longleftrightarrow> LF \<notin> set text \<and> (\<forall>u\<in>set text. is_js_whitespace u)"
  by (cases "LF \<in> set text")
    (auto simp: textToLines_preformatted textToLines_plain rebalance_error_iff lines_all_empty_iff)

theorem textToLines_error_iff_witness: "textToLines16 [] = Inl TypeError"
  using textToLines_error_iff [of "[]" 16] by simp

text \<open>
  C3. No character is lost, duplicated or reordered: the code units of the returned
  lines, read in order, are those of the text, up to white space (which wrapping trims
  at the ends of lines and line feeds consume).
\<close>

theorem textToLines_content:
  assumes "textToLines text mx = Inr ls"
  shows "filter not_ws (concat ls) = filter not_ws text"
proof -
  let ?r = "filter (\<lambda>l. l \<noteq> []) (lines (scan_text mx text))"
  from assms have "concat ls = concat ?r"
    by (cases "LF \<in> set text")
      (auto simp: textToLines_preformatted textToLines_plain dest: rebalance_concat)
  then show ?thesis by (simp add: lines_content)
qed

theorem textToLines_content_witness:
  "textToLines (js_str ''ABCDEFG XY'') 8 = Inr [js_str ''ABCDE'', js_str ''FGXY'']
   \<and> filter not_ws (concat [js_str ''ABCDE'', js_str ''FGXY''])
     = filter not_ws (js_str ''ABCDEFG XY'')"
proof -
  have h: "textToLines (js_str ''ABCDEFG XY'') 8 = Inr [js_str ''ABCDE'', js_str ''FGXY'']"
    by code_simp
  from h textToLines_content [OF h] show ?thesis by (rule conjI)
qed

text \<open>
  C5. For a limit of at least 7 (the program always passes 16), every returned line is
  at most \<open>mx + 1\<close> units wide: a line is closed by the character that brings the
  counter to the limit, and that character may be two units wide. The bound is reached
  (the witness is a line of 17 units for the limit 16), so a line can exceed the limit
  by one unit.
\<close>

theorem textToLines_width:
  assumes "textToLines text mx = Inr ls" and "7 \<le> mx" and "l \<in> set ls"
  shows "str_units l \<le> mx + 1"
proof -
  let ?r = "filter (\<lambda>l. l \<noteq> []) (lines (scan_text mx text))"
  have r: "str_units x \<le> mx + 1" if "x \<in> set ?r" for x
  proof -
    from that have "x \<in> set (lines (scan_text mx text))" by simp
    from lines_width [OF this] assms(2) show ?thesis by simp
  qed
  show ?thesis
  proof (cases "LF \<in> set text")
    case True
    with assms r show ?thesis by (simp add: textToLines_preformatted)
  next
    case False
    with assms have ls: "rebalance ?r = Inr ls" by (simp add: textToLines_plain)
    show ?thesis
    proof (cases ?r rule: rebalance_cases)
      case (moved ys y z)
      from moved(1) r have y: "str_units y \<le> mx + 1" and ys: "\<forall>x\<in>set ys. str_units x \<le> mx + 1"
        by (metis in_set_conv_decomp append_Cons append_assoc)+
      have "str_units (take (length y - 2) y) \<le> mx + 1"
        using str_units_take [of "length y - 2" y] y by simp
      moreover have "str_units (drop (length y - 2) y @ z) \<le> mx + 1"
        using str_units_le_length [of "drop (length y - 2) y @ z"] moved(2,3) assms(2) by simp
      ultimately show ?thesis using ls moved(4) ys assms(3) by auto
    qed (use ls r assms(3) in auto)
  qed
qed

theorem textToLines_width_witness:
  "textToLines16 (js_str ''ABCDEFGHIJKLMNO'' @ [0x559C]) = Inr [js_str ''ABCDEFGHIJKLMNO'' @ [0x559C]]
   \<and> str_units (js_str ''ABCDEFGHIJKLMNO'' @ [0x559C]) = 17
   \<and> str_units (js_str ''ABCDEFGHIJKLMNO'' @ [0x559C]) \<le> 16 + 1"
proof -
  let ?t = "js_str ''ABCDEFGHIJKLMNO'' @ [0x559C]"
  have h: "textToLines16 ?t = Inr [?t]" by code_simp
  have u: "str_units ?t = 17" by code_simp
  from textToLines_width [OF h, of ?t] have "str_units ?t \<le> 16 + 1" by simp
  with h u show ?thesis by blast
qed

text \<open>
  C24. The rebalancing step, when it applies (the last line has fewer than 3 code units
  and the line before it more than 5): the last two code units of the line before are
  moved to the front of the last line; all other lines stay as they are.
\<close>

theorem rebalance_moves:
  assumes "length z < 3" and "length y > 5"
  shows "rebalance (ys @ [y, z]) = Inr (ys @ [take (length y - 2) y, drop (length y - 2) y @ z])"
  using assms by (simp add: rebalance_two_last)

theorem rebalance_moves_witness:
  "rebalance [js_str ''ABCDEFGH'', js_str ''XY''] = Inr [js_str ''ABCDEF'', js_str ''GHXY'']"
  using rebalance_moves [of "js_str ''XY''" "js_str ''ABCDEFGH''" "[]"]
  by (simp add: js_str_def)

text \<open>
  C23. No orphan is left behind a long line: in the result for a text without line
  feeds, a last line of fewer than 3 code units is never preceded by a line of more than
  5 code units.
\<close>

theorem textToLines_no_orphan:
  assumes "textToLines text mx = Inr ls" and "LF \<notin> set text"
    and "2 \<le> length ls" and "length (last ls) < 3"
  shows "length (ls ! (length ls - 2)) \<le> 5"
proof -
  let ?r = "filter (\<lambda>l. l \<noteq> []) (lines (scan_text mx text))"
  from assms have ls: "rebalance ?r = Inr ls" by (simp add: textToLines_plain)
  show ?thesis
    using ls assms(3,4)
  proof (cases ?r rule: rebalance_cases)
    case (moved ys y z)
    have "[] \<notin> set ?r" by simp
    with moved(1) have "z \<noteq> []" by auto
    with moved ls assms(4) show ?thesis by auto
  qed (auto simp: nth_append)
qed

theorem textToLines_no_orphan_witness:
  "textToLines (js_str ''ABCDEX'') 5 = Inr [js_str ''ABCDE'', js_str ''X'']
   \<and> length ([js_str ''ABCDE'', js_str ''X''] ! (length [js_str ''ABCDE'', js_str ''X''] - 2)) \<le> 5"
proof -
  have h: "textToLines (js_str ''ABCDEX'') 5 = Inr [js_str ''ABCDE'', js_str ''X'']"
    by code_simp
  have "LF \<notin> set (js_str ''ABCDEX'')" by code_simp
  from textToLines_no_orphan [OF h this] h show ?thesis by (simp add: js_str_def)
qed

text \<open>
  C29. Splitting is the inverse of joining with line feeds, for lines that contain no
  line feed, have nothing to trim and are narrower than the limit: the result is the
  list of the non-empty lines. The exception is a list of at most one line with no
  non-empty line in it, whose join has no line feed and no content, and on which
  \<^verbatim>\<open>textToLines\<close> throws.
\<close>

theorem textToLines_join:
  assumes "\<forall>l\<in>set ls. short_line mx l"
  shows "textToLines (js_join_lf ls) mx =
     (if length ls \<le> 1 \<and> filter (\<lambda>l. l \<noteq> []) ls = [] then Inl TypeError
      else Inr (filter (\<lambda>l. l \<noteq> []) ls))"
proof (cases ls rule: js_join_lf.cases)
  case 1
  then show ?thesis by (simp add: textToLines_def scan_text_def init_split_def)
next
  case (2 l)
  with assms have "LF \<notin> set (js_join_lf ls)" by (simp add: short_line_def)
  with 2 assms show ?thesis
    using lines_join [of ls mx] by (simp add: textToLines_plain)
next
  case (3 l m ms)
  then have "LF \<in> set (js_join_lf ls)" by simp
  with 3 assms show ?thesis
    using lines_join [of ls mx] by (simp add: textToLines_preformatted)
qed

theorem textToLines_join_witness:
  "textToLines16 (js_join_lf [js_str ''AB'', [], js_str ''C D'']) = Inr [js_str ''AB'', js_str ''C D'']"
proof -
  have "\<forall>l\<in>set [js_str ''AB'', [], js_str ''C D'']. short_line 16 l" by code_simp
  from textToLines_join [OF this] show ?thesis by (simp add: js_str_def)
qed

text \<open>
  C30. Every returned line is non-empty: empty lines are filtered out, and rebalancing
  leaves at least 4 code units in the line it shortens.
\<close>

theorem textToLines_nonempty:
  assumes "textToLines text mx = Inr ls"
  shows "[] \<notin> set ls"
  using assms
  by (cases "LF \<in> set text")
    (auto simp: textToLines_preformatted textToLines_plain dest: rebalance_nonempty)

theorem textToLines_nonempty_witness:
  "textToLines16 (js_str ''A'' @ [LF, LF] @ js_str '' B '') = Inr [js_str ''A'', js_str ''B'']
   \<and> [] \<notin> set [js_str ''A'', js_str ''B'']"
proof -
  have h: "textToLines16 (js_str ''A'' @ [LF, LF] @ js_str '' B '') = Inr [js_str ''A'', js_str ''B'']"
    by code_simp
  from h textToLines_nonempty [OF h] show ?thesis by (rule conjI)
qed

text \<open>
  C31. On pre-formatted text (text with a line feed) the splitter keeps UTF-16 well
  formed: if no surrogate of the text is unpaired, none of any returned line is. Lines
  are cut between characters and trimming removes whole characters.
\<close>

theorem textToLines_preformatted_well_formed:
  assumes "well_formed text" and "LF \<in> set text" and "textToLines text mx = Inr ls"
  shows "\<forall>l\<in>set ls. well_formed l"
  using assms lines_well_formed [of "text" _ mx]
  by (auto simp: textToLines_preformatted)

theorem textToLines_preformatted_well_formed_witness:
  "textToLines16 ([0xD83D, 0xDE00, LF] @ js_str ''ok'') = Inr [[0xD83D, 0xDE00], js_str ''ok'']
   \<and> well_formed [0xD83D, 0xDE00] \<and> well_formed (js_str ''ok'')"
proof -
  let ?t = "[0xD83D, 0xDE00, LF] @ js_str ''ok''"
  have h: "textToLines16 ?t = Inr [[0xD83D, 0xDE00], js_str ''ok'']" by code_simp
  have "well_formed ?t" by code_simp
  from textToLines_preformatted_well_formed [OF this _ h] h show ?thesis by simp
qed

text \<open>
  Rebalancing counts code units, not characters. When the line before the last ends
  with a surrogate pair followed by one more code unit, the cut falls inside the pair:
  the shortened line ends with an unpaired high surrogate and the last line starts with
  the low one.
\<close>

theorem rebalance_splits_surrogate_pair:
  "well_formed (js_str ''ABCDEFGHIJKLM'' @ [0xD83D, 0xDE00] @ js_str ''xZ'') \<and>
   textToLines16 (js_str ''ABCDEFGHIJKLM'' @ [0xD83D, 0xDE00] @ js_str ''xZ'')
     = Inr [js_str ''ABCDEFGHIJKLM'' @ [0xD83D], 0xDE00 # js_str ''xZ''] \<and>
   \<not> well_formed (js_str ''ABCDEFGHIJKLM'' @ [0xD83D])"
  by code_simp

text \<open>The examples of the specification: 13 narrow characters, 9 wide ones.\<close>

lemma textToLines_examples:
  "textToLines16 (js_str ''ABCDEFGHIJKLM'') = Inr [js_str ''ABCDEFGHIJKLM'']"
  "textToLines16 (replicate 9 0x559C) = Inr [replicate 6 0x559C, replicate 3 0x559C]"
  "textToLines (js_str ''ABCDEFGHXY'') 8 = Inr [js_str ''ABCDEF'', js_str ''GHXY'']"
  by code_simp+

end
