(* ===== verification/JS_Number.thy ===== *)
theory JS_Number
  imports Xibao_Prelude "HOL-Library.Log_Nat"
begin

text \<open>
  JavaScript numbers as the layout code computes with them: IEEE 754 binary64 values
  with round-to-nearest, ties-to-even arithmetic. A finite value is the rational it
  denotes; rounding is an executable function on rationals, so that \<^verbatim>\<open>width / svg.width\<close>
  and \<^verbatim>\<open>Math.floor(svg.width * scale)\<close> evaluate to what the engine computes, rounding
  errors included. The operations are those \<^verbatim>\<open>generateImage\<close> and \<^verbatim>\<open>textSvg\<close>
  apply: \<^verbatim>\<open>+\<close>, \<^verbatim>\<open>-\<close>, \<^verbatim>\<open>*\<close>, \<^verbatim>\<open>/\<close>, \<^verbatim>\<open>>\<close>, \<^verbatim>\<open><\<close>, \<^verbatim>\<open>!==\<close>, \<^verbatim>\<open>Math.floor\<close>,
  \<^verbatim>\<open>Math.ceil\<close>.
\<close>

section \<open>Rounding to binary64\<close>

text \<open>
  The binary exponent of a positive rational: \<open>flog2 r = \<lfloor>log\<^sub>2 r\<rfloor>\<close>, computed from the
  bit length of the integer part (or of the integer part of the reciprocal).
\<close>

definition flog2 :: "rat \<Rightarrow> int" where
  "flog2 r = (if 1 \<le> r then bitlen \<lfloor>r\<rfloor> - 1 else - bitlen (\<lceil>1 / r\<rceil> - 1))"

text \<open>Rounding to the nearest integer, ties to the even one.\<close>

definition rne :: "rat \<Rightarrow> int" where
  "rne x =
     (let f = \<lfloor>x\<rfloor>; d = x - of_int f
      in if d < 1 / 2 then f else if 1 / 2 < d then f + 1
         else if even f then f else f + 1)"

text \<open>
  The exponent of the unit in the last place of the binade of \<open>r\<close>: 52 below the
  binary exponent, which is clamped at \<open>-1022\<close> (subnormal numbers share the exponent
  of the smallest normal ones).
\<close>

definition ulp_exp :: "rat \<Rightarrow> int" where
  "ulp_exp r = max (flog2 \<bar>r\<bar>) (- 1022) - 52"

text \<open>
  Rounding a rational to the nearest multiple of its unit in the last place: the value
  an operation returns when its exact result is \<open>r\<close>, before the check for overflow.
\<close>

definition fl :: "rat \<Rightarrow> rat" where
  "fl r = (if r = 0 then 0 else of_int (rne (r / 2 powi ulp_exp r)) * 2 powi ulp_exp r)"

text \<open>
  The same rounding by integer arithmetic, for a fraction \<open>a / b\<close> of positive
  integers: the exponent from the bit lengths of \<open>a\<close> and \<open>b\<close>, the quotient by
  \<open>div\<close> and \<open>mod\<close>. This is the routine the examples are evaluated with.
\<close>

definition rne_div :: "int \<Rightarrow> int \<Rightarrow> int" where
  "rne_div n d = (let q = n div d; m = n mod d in
     if 2 * m < d then q else if d < 2 * m then q + 1 else if even q then q else q + 1)"

definition flog2_frac :: "int \<Rightarrow> int \<Rightarrow> int" where
  "flog2_frac a b = (let k = bitlen a - bitlen b in
     if 0 \<le> k then (if b * 2 ^ nat k \<le> a then k else k - 1)
     else (if b \<le> a * 2 ^ nat (- k) then k else k - 1))"

definition fl_frac :: "int \<Rightarrow> int \<Rightarrow> rat" where
  "fl_frac a b = (let e = max (flog2_frac a b) (- 1022) - 52 in
     if e \<le> 0 then of_int (rne_div (a * 2 ^ nat (- e)) b) * 2 powi e
     else of_int (rne_div a (b * 2 ^ nat e)) * 2 powi e)"

definition max_double :: rat where
  "max_double = (2 ^ 53 - 1) * 2 ^ 971"

section \<open>Number values\<close>

text \<open>
  \<open>Fin r\<close> is the finite value \<open>r\<close> (\<open>Fin 0\<close> is \<open>+0\<close>), \<open>NegZero\<close> is \<open>-0\<close>.
\<close>

datatype js_number = Fin rat | NegZero | PInf | NInf | NaN

text \<open>The result of an operation whose exact result is the non-zero rational \<open>r\<close>:
  overflow gives an infinity, underflow to zero keeps the sign.\<close>

definition round_double :: "rat \<Rightarrow> js_number" where
  "round_double r =
     (let q = fl r
      in if max_double < q then PInf else if q < - max_double then NInf
         else if q = 0 \<and> r < 0 then NegZero else Fin q)"

fun is_finite :: "js_number \<Rightarrow> bool" where
  "is_finite (Fin r) = True"
| "is_finite NegZero = True"
| "is_finite _ = False"

text \<open>The rational a finite number denotes, and whether its sign bit is set.\<close>

fun val :: "js_number \<Rightarrow> rat" where
  "val (Fin r) = r"
| "val _ = 0"

fun is_negative :: "js_number \<Rightarrow> bool" where
  "is_negative (Fin r) = (r < 0)"
| "is_negative NegZero = True"
| "is_negative NInf = True"
| "is_negative _ = False"

definition signed_zero :: "bool \<Rightarrow> js_number" where
  "signed_zero neg = (if neg then NegZero else Fin 0)"

definition signed_inf :: "bool \<Rightarrow> js_number" where
  "signed_inf neg = (if neg then NInf else PInf)"

definition js_int :: "int \<Rightarrow> js_number" where
  "js_int n = Fin (of_int n)"

section \<open>Arithmetic\<close>

fun js_neg :: "js_number \<Rightarrow> js_number" where
  "js_neg (Fin r) = (if r = 0 then NegZero else Fin (- r))"
| "js_neg NegZero = Fin 0"
| "js_neg PInf = NInf"
| "js_neg NInf = PInf"
| "js_neg NaN = NaN"

definition js_add :: "js_number \<Rightarrow> js_number \<Rightarrow> js_number" where
  "js_add a b =
     (if a = NaN \<or> b = NaN then NaN
      else if \<not> is_finite a then (if \<not> is_finite b \<and> a \<noteq> b then NaN else a)
      else if \<not> is_finite b then b
      else if val a + val b = 0 then signed_zero (a = NegZero \<and> b = NegZero)
      else round_double (val a + val b))"

definition js_sub :: "js_number \<Rightarrow> js_number \<Rightarrow> js_number" where
  "js_sub a b = js_add a (js_neg b)"

definition js_mul :: "js_number \<Rightarrow> js_number \<Rightarrow> js_number" where
  "js_mul a b =
     (let neg = (is_negative a \<noteq> is_negative b)
      in if a = NaN \<or> b = NaN then NaN
         else if \<not> is_finite a \<or> \<not> is_finite b then
           (if (is_finite a \<and> val a = 0) \<or> (is_finite b \<and> val b = 0) then NaN
            else signed_inf neg)
         else if val a * val b = 0 then signed_zero neg
         else round_double (val a * val b))"

definition js_div :: "js_number \<Rightarrow> js_number \<Rightarrow> js_number" where
  "js_div a b =
     (let neg = (is_negative a \<noteq> is_negative b)
      in if a = NaN \<or> b = NaN then NaN
         else if \<not> is_finite a then (if \<not> is_finite b then NaN else signed_inf neg)
         else if \<not> is_finite b then signed_zero neg
         else if val b = 0 then (if val a = 0 then NaN else signed_inf neg)
         else if val a = 0 then signed_zero neg
         else round_double (val a / val b))"

section \<open>Comparison\<close>

text \<open>\<^verbatim>\<open>a < b\<close> on numbers: false when either is \<^verbatim>\<open>NaN\<close>; the two zeros are equal.\<close>

definition js_lt :: "js_number \<Rightarrow> js_number \<Rightarrow> bool" where
  "js_lt a b =
     (if a = NaN \<or> b = NaN then False
      else if a = PInf \<or> b = NInf then False
      else if a = NInf \<or> b = PInf then True
      else val a < val b)"

definition js_gt :: "js_number \<Rightarrow> js_number \<Rightarrow> bool" where
  "js_gt a b = js_lt b a"

text \<open>\<^verbatim>\<open>a !== b\<close> on numbers: \<^verbatim>\<open>NaN\<close> differs from everything, \<open>+0\<close> equals \<open>-0\<close>.\<close>

definition js_strict_neq :: "js_number \<Rightarrow> js_number \<Rightarrow> bool" where
  "js_strict_neq a b =
     (if a = NaN \<or> b = NaN then True
      else if is_finite a \<and> is_finite b then val a \<noteq> val b
      else a \<noteq> b)"

section \<open>Math.floor and Math.ceil\<close>

fun js_floor :: "js_number \<Rightarrow> js_number" where
  "js_floor (Fin r) = Fin (of_int \<lfloor>r\<rfloor>)"
| "js_floor x = x"

fun js_ceil :: "js_number \<Rightarrow> js_number" where
  "js_ceil (Fin r) = (if - 1 < r \<and> r < 0 then NegZero else Fin (of_int \<lceil>r\<rceil>))"
| "js_ceil x = x"

section \<open>The values of the type\<close>

text \<open>
  The rationals that are binary64 values, and the numbers of the model that denote a
  value of the type: the invariant every operation keeps.
\<close>

definition representable :: "rat \<Rightarrow> bool" where
  "representable r \<longleftrightarrow> fl r = r \<and> \<bar>r\<bar> \<le> max_double"

fun is_double :: "js_number \<Rightarrow> bool" where
  "is_double (Fin r) = representable r"
| "is_double _ = True"

named_theorems js_eval "evaluation of the number operations on literals"

section \<open>Powers of two and the binary exponent\<close>

lemma two_powi_pos [simp]: "0 < (2::rat) powi k"
  by simp

lemma two_powi_nat: "0 \<le> k \<Longrightarrow> (2::rat) powi k = 2 ^ nat k"
  by (rule power_int_nonneg_exp)

lemma two_powi_neg: "(2::rat) powi (- k) = 1 / 2 powi k"
  by (rule power_int_minus_divide)

lemma two_powi_Suc: "(2::rat) powi (k + 1) = 2 * 2 powi k"
  by (simp add: power_int_add)

lemma two_powi_less_iff [simp]: "(2::rat) powi j < 2 powi k \<longleftrightarrow> j < k"
  by (metis linorder_neqE_linordered_idom not_less_iff_gr_or_eq numeral_One numeral_less_iff
      power_int_strict_increasing semiring_norm(76))

lemma two_powi_le_iff [simp]: "(2::rat) powi j \<le> 2 powi k \<longleftrightarrow> j \<le> k"
  by (simp add: linorder_not_less [symmetric])

lemma flog2_unique:
  fixes r :: rat
  assumes "2 powi k \<le> r" and "r < 2 powi (k + 1)"
    and "2 powi j \<le> r" and "r < 2 powi (j + 1)"
  shows "j = k"
proof -
  from assms(1,4) have "(2::rat) powi k < 2 powi (j + 1)" by (rule order_le_less_trans)
  moreover from assms(3,2) have "(2::rat) powi j < 2 powi (k + 1)" by (rule order_le_less_trans)
  ultimately show ?thesis by simp
qed

lemma bitlen_bounds_rat:
  assumes "0 < x"
  shows "(2::rat) powi (bitlen x - 1) \<le> of_int x" and "of_int x < (2::rat) powi bitlen x"
proof -
  from assms have b: "1 \<le> bitlen x" 
    using bitlen_eq_zero_iff [of x] bitlen_nonneg [of x] by linarith
  from bitlen_bounds [OF assms] have "(2::int) ^ nat (bitlen x - 1) \<le> x" and "x < 2 ^ nat (bitlen x)"
    by simp_all
  then have "(of_int (2 ^ nat (bitlen x - 1)) :: rat) \<le> of_int x" 
    and "(of_int x :: rat) < of_int (2 ^ nat (bitlen x))"
    by (simp_all only: of_int_le_iff of_int_less_iff)
  with b show "(2::rat) powi (bitlen x - 1) \<le> of_int x" and "of_int x < (2::rat) powi bitlen x"
    by (simp_all add: two_powi_nat)
qed

lemma flog2_bounds:
  assumes "0 < r"
  shows "2 powi flog2 r \<le> r" and "r < 2 powi (flog2 r + 1)"
proof -
  have "2 powi flog2 r \<le> r \<and> r < 2 powi (flog2 r + 1)"
  proof (cases "1 \<le> r")
    case True
    then have k: "0 < \<lfloor>r\<rfloor>" by simp
    have lo: "2 powi (bitlen \<lfloor>r\<rfloor> - 1) \<le> r"
      using bitlen_bounds_rat(1) [OF k] of_int_floor_le [of r] by (rule order_trans)
    have "r < of_int \<lfloor>r\<rfloor> + 1" by linarith
    also have "of_int \<lfloor>r\<rfloor> + 1 \<le> (2::rat) powi bitlen \<lfloor>r\<rfloor>"
    proof -
      from bitlen_bounds [OF k] have "\<lfloor>r\<rfloor> + 1 \<le> 2 ^ nat (bitlen \<lfloor>r\<rfloor>)" by simp
      then have "(of_int (\<lfloor>r\<rfloor> + 1) :: rat) \<le> of_int (2 ^ nat (bitlen \<lfloor>r\<rfloor>))"
        by (simp only: of_int_le_iff)
      then show ?thesis by (simp add: two_powi_nat bitlen_nonneg)
    qed
    finally show ?thesis
      using lo True by (simp add: flog2_def)
  next
    case False
    let ?j = "\<lceil>1 / r\<rceil> - 1"
    from False assms have "1 < 1 / r" by simp
    then have j: "0 < ?j" by (simp add: less_ceiling_iff)
    have up: "1 / r \<le> of_int ?j + 1" using ceiling_correct [of "1 / r"] by simp
    have lo: "of_int ?j < 1 / r" using ceiling_correct [of "1 / r"] by simp
    have "of_int ?j + 1 \<le> (2::rat) powi bitlen ?j"
    proof -
      from bitlen_bounds [OF j] have "?j + 1 \<le> 2 ^ nat (bitlen ?j)" by simp
      then have "(of_int (?j + 1) :: rat) \<le> of_int (2 ^ nat (bitlen ?j))"
        by (simp only: of_int_le_iff)
      then show ?thesis by (simp add: two_powi_nat bitlen_nonneg)
    qed
    with up have "1 / r \<le> 2 powi bitlen ?j" by (rule order_trans)
    with assms have 1: "2 powi (- bitlen ?j) \<le> r"
      by (simp add: two_powi_neg field_simps)
    from bitlen_bounds_rat(1) [OF j] lo have "2 powi (bitlen ?j - 1) < 1 / r" by simp
    with assms have "r < 1 / 2 powi (bitlen ?j - 1)"
      by (simp add: field_simps)
    then have 2: "r < 2 powi (- bitlen ?j + 1)"
      by (simp add: two_powi_neg [symmetric])
    from 1 2 False show ?thesis by (simp add: flog2_def)
  qed
  then show "2 powi flog2 r \<le> r" and "r < 2 powi (flog2 r + 1)" by simp_all
qed

lemma flog2_eqI: "2 powi k \<le> r \<Longrightarrow> r < 2 powi (k + 1) \<Longrightarrow> flog2 r = k" for r :: rat
proof -
  assume a: "2 powi k \<le> r" "r < 2 powi (k + 1)"
  then have "0 < r" using two_powi_pos [of k] by linarith
  from flog2_unique [OF a flog2_bounds [OF this]] show ?thesis .
qed

section \<open>Rounding by integer arithmetic\<close>

lemma rne_div:
  assumes "0 < d"
  shows "rne (of_int n / of_int d) = rne_div n d"
proof -
  have f: "\<lfloor>(of_int n :: rat) / of_int d\<rfloor> = n div d" by (rule floor_divide_of_int_eq)
  have "(of_int n :: rat) = of_int (n div d) * of_int d + of_int (n mod d)"
    by (metis div_mult_mod_eq of_int_add of_int_mult)
  then have dd: "(of_int n :: rat) / of_int d - of_int (n div d) = of_int (n mod d) / of_int d"
    using assms by (simp add: field_simps)
  have "(of_int (n mod d) :: rat) / of_int d < 1 / 2 \<longleftrightarrow> (of_int (2 * (n mod d)) :: rat) < of_int d"
    using assms by (simp add: field_simps)
  then have lt: "(of_int (n mod d) :: rat) / of_int d < 1 / 2 \<longleftrightarrow> 2 * (n mod d) < d"
    by (simp only: of_int_less_iff)
  have "1 / 2 < (of_int (n mod d) :: rat) / of_int d \<longleftrightarrow> (of_int d :: rat) < of_int (2 * (n mod d))"
    using assms by (simp add: field_simps)
  then have gt: "1 / 2 < (of_int (n mod d) :: rat) / of_int d \<longleftrightarrow> d < 2 * (n mod d)"
    by (simp only: of_int_less_iff)
  show ?thesis
    by (simp only: rne_def rne_div_def Let_def f dd lt gt)
qed

lemma frac_bitlen_bounds:
  assumes "0 < a" and "0 < b"
  shows "(of_int a :: rat) / of_int b < 2 powi (bitlen a - bitlen b + 1)"
    and "2 powi (bitlen a - bitlen b - 1) \<le> (of_int a :: rat) / of_int b"
proof -
  let ?k = "bitlen a - bitlen b"
  note A = bitlen_bounds_rat [OF assms(1)] and B = bitlen_bounds_rat [OF assms(2)]
  from assms have bpos: "0 < (of_int b :: rat)" by simp
  have "of_int a < (2::rat) powi (?k + 1) * 2 powi (bitlen b - 1)"
    using A(2) by (simp flip: power_int_add)
  also have "\<dots> \<le> 2 powi (?k + 1) * of_int b"
    using B(1) by (simp add: mult_left_mono)
  finally show "(of_int a :: rat) / of_int b < 2 powi (?k + 1)"
    using bpos by (simp add: field_simps)
  have "(2::rat) powi (?k - 1) * of_int b \<le> 2 powi (?k - 1) * 2 powi bitlen b"
    using B(2) by (simp add: mult_left_mono)
  also have "\<dots> = 2 powi (bitlen a - 1)" by (simp flip: power_int_add)
  also have "\<dots> \<le> of_int a" by (rule A(1))
  finally show "2 powi (?k - 1) \<le> (of_int a :: rat) / of_int b"
    using bpos by (simp add: field_simps)
qed

lemma flog2_frac:
  assumes "0 < a" and "0 < b"
  shows "flog2 (of_int a / of_int b) = flog2_frac a b"
proof -
  let ?r = "(of_int a :: rat) / of_int b" and ?k = "bitlen a - bitlen b"
  note up = frac_bitlen_bounds(1) [OF assms] and lo = frac_bitlen_bounds(2) [OF assms]
  from assms have bpos: "0 < (of_int b :: rat)" by simp
  have testT: "2 powi ?k \<le> ?r \<longleftrightarrow> b * 2 ^ nat ?k \<le> a" if "0 \<le> ?k"
  proof -
    have "2 powi ?k \<le> ?r \<longleftrightarrow> (of_int (b * 2 ^ nat ?k) :: rat) \<le> of_int a"
      using bpos that by (simp add: field_simps two_powi_nat)
    then show ?thesis by (simp only: of_int_le_iff)
  qed
  have testF: "2 powi ?k \<le> ?r \<longleftrightarrow> b \<le> a * 2 ^ nat (- ?k)" if "\<not> 0 \<le> ?k"
  proof -
    from that have p: "(2::rat) powi ?k = 1 / 2 ^ nat (- ?k)"
      using two_powi_neg [of "- ?k"] by (simp add: two_powi_nat)
    have "1 / 2 ^ nat (- ?k) \<le> ?r \<longleftrightarrow> (of_int b :: rat) \<le> of_int (a * 2 ^ nat (- ?k))"
      using bpos by (simp add: field_simps)
    then show ?thesis by (simp only: p of_int_le_iff)
  qed
  show ?thesis
  proof (cases "2 powi ?k \<le> ?r")
    case True
    with up have "flog2 ?r = ?k" by (intro flog2_eqI)
    with True testT testF show ?thesis
      by (cases "0 \<le> ?k") (simp_all add: flog2_frac_def Let_def)
  next
    case False
    with lo have "flog2 ?r = ?k - 1" by (intro flog2_eqI) simp_all
    with False testT testF show ?thesis
      by (cases "0 \<le> ?k") (simp_all add: flog2_frac_def Let_def)
  qed
qed

lemma fl_frac:
  assumes "0 < a" and "0 < b"
  shows "fl (of_int a / of_int b) = fl_frac a b"
proof -
  let ?r = "(of_int a :: rat) / of_int b"
  let ?e = "max (flog2_frac a b) (- 1022) - 52"
  from assms have r: "0 < ?r" by simp
  then have "\<bar>?r\<bar> = ?r" by (rule abs_of_pos)
  then have e: "ulp_exp ?r = ?e" by (simp only: ulp_exp_def flog2_frac [OF assms])
  from r have "?r \<noteq> 0" by (rule less_imp_neq [THEN not_sym])
  then have fl: "fl ?r = of_int (rne (?r / 2 powi ?e)) * 2 powi ?e"
    by (simp only: fl_def e if_False)
  show ?thesis
  proof (cases "?e \<le> 0")
    case True
    then have "(2::rat) powi ?e = 1 / 2 ^ nat (- ?e)"
      using two_powi_neg [of "- ?e"] by (simp add: two_powi_nat)
    then have "?r / 2 powi ?e = of_int (a * 2 ^ nat (- ?e)) / of_int b" by simp
    then have "rne (?r / 2 powi ?e) = rne_div (a * 2 ^ nat (- ?e)) b"
      by (simp only: rne_div [OF assms(2)])
    with True show ?thesis by (simp only: fl fl_frac_def Let_def if_True)
  next
    case False
    then have "?r / 2 powi ?e = of_int a / of_int (b * 2 ^ nat ?e)"
      by (simp add: two_powi_nat)
    moreover from assms have "0 < b * 2 ^ nat ?e" by simp
    ultimately have "rne (?r / 2 powi ?e) = rne_div a (b * 2 ^ nat ?e)"
      by (simp only: rne_div)
    with False show ?thesis by (simp only: fl fl_frac_def Let_def if_False)
  qed
qed

section \<open>Symmetry\<close>

lemma bitlen_numeral_simps:
  "bitlen 1 = 1"
  "bitlen (numeral Num.One) = 1"
  "bitlen (numeral (Num.Bit0 k)) = 1 + bitlen (numeral k)"
  "bitlen (numeral (Num.Bit1 k)) = 1 + bitlen (numeral k)"
proof -
  show "bitlen 1 = 1" "bitlen (numeral Num.One) = 1"
    by (simp_all add: compute_bitlen [of 1])
  have "bitlen (numeral (Num.Bit0 k)) = bitlen (numeral (Num.Bit0 k) div 2) + 1"
    by (subst compute_bitlen) simp
  then show "bitlen (numeral (Num.Bit0 k)) = 1 + bitlen (numeral k)" by simp
  have "bitlen (numeral (Num.Bit1 k)) = bitlen (numeral (Num.Bit1 k) div 2) + 1"
    by (subst compute_bitlen) simp
  then show "bitlen (numeral (Num.Bit1 k)) = 1 + bitlen (numeral k)" by simp
qed

lemma rne_of_int [simp]: "rne (of_int n) = n"
  by (simp add: rne_def)

lemma rne_minus: "rne (- x) = - rne x"
proof (cases "x \<in> \<int>")
  case True
  then obtain n where "x = of_int n" by (auto elim: Ints_cases)
  then have "rne x = n" and "rne (- x) = - n"
    using rne_of_int [of n] rne_of_int [of "- n"] by simp_all
  then show ?thesis by simp
next
  case False
  then have "x \<noteq> of_int \<lfloor>x\<rfloor>" by (metis Ints_of_int)
  then have "\<lceil>x\<rceil> = \<lfloor>x\<rfloor> + 1" by (simp add: ceiling_altdef)
  then have f: "\<lfloor>- x\<rfloor> = - \<lfloor>x\<rfloor> - 1" by (simp add: ceiling_def)
  have d: "- x - of_int (- \<lfloor>x\<rfloor> - 1) = 1 - (x - of_int \<lfloor>x\<rfloor>)" by simp
  have e: "even (- \<lfloor>x\<rfloor> - 1) \<longleftrightarrow> odd \<lfloor>x\<rfloor>" by simp
  show ?thesis
    unfolding rne_def Let_def f d e by (auto simp: not_less)
qed

lemma ulp_exp_minus [simp]: "ulp_exp (- r) = ulp_exp r"
  by (simp add: ulp_exp_def)

lemma fl_minus: "fl (- r) = - fl r"
  by (simp add: fl_def rne_minus)

lemma fl_0 [simp]: "fl 0 = 0"
  by (simp add: fl_def)

section \<open>Exactness on dyadic numbers\<close>

text \<open>
  A number on the grid of its own binade is not changed by rounding; so integers up to
  \<open>2\<^sup>5\<^sup>3\<close> and their halves are exact.
\<close>

lemma fl_grid:
  assumes "r = of_int j * 2 powi ulp_exp r"
  shows "fl r = r"
proof (cases "r = 0")
  case True
  then show ?thesis by simp
next
  case False
  have "r / 2 powi ulp_exp r = of_int j"
    by (subst assms) simp
  then have "rne (r / 2 powi ulp_exp r) = j" by simp
  with False assms show ?thesis by (simp add: fl_def)
qed

lemma ulp_exp_le:
  assumes "0 < r" and "r < 2 powi (53 + k)" and "- 1074 \<le> k"
  shows "ulp_exp r \<le> k"
proof -
  from flog2_bounds(1) [OF assms(1)] assms(2) have "(2::rat) powi flog2 r < 2 powi (53 + k)"
    by (rule order_le_less_trans)
  then have "flog2 r < 53 + k" by simp
  with assms show ?thesis by (simp add: ulp_exp_def)
qed

lemma fl_dyadic_pos:
  assumes "0 < m" and "m < 2 ^ 53" and "- 1074 \<le> k"
  shows "fl (of_int m * 2 powi k) = of_int m * 2 powi k"
proof -
  let ?r = "(of_int m :: rat) * 2 powi k"
  from assms(1) have r: "0 < ?r" by simp
  from assms(2) have "(of_int m :: rat) < of_int (2 ^ 53)" by (simp only: of_int_less_iff)
  then have "?r < 2 powi 53 * 2 powi k" by simp
  then have "?r < 2 powi (53 + k)" by (simp add: power_int_add)
  from ulp_exp_le [OF r this assms(3)] have u: "ulp_exp ?r \<le> k" .
  then have "(2::rat) powi k = 2 powi (k - ulp_exp ?r) * 2 powi ulp_exp ?r"
    by (simp flip: power_int_add)
  also from u have "(2::rat) powi (k - ulp_exp ?r) = of_int (2 ^ nat (k - ulp_exp ?r))"
    by (simp add: two_powi_nat)
  finally have "?r = of_int (m * 2 ^ nat (k - ulp_exp ?r)) * 2 powi ulp_exp ?r"
    by simp
  then show ?thesis by (rule fl_grid)
qed

lemma fl_dyadic:
  assumes "\<bar>m\<bar> \<le> 2 ^ 53" and "- 1074 \<le> k"
  shows "fl (of_int m * 2 powi k) = of_int m * 2 powi k"
proof -
  have pos: "fl (of_int n * 2 powi k) = of_int n * 2 powi k" if "0 < n" "n \<le> 2 ^ 53" for n
  proof (cases "n = 2 ^ 53")
    case True
    have "fl (of_int (2 ^ 52) * 2 powi (k + 1)) = of_int (2 ^ 52) * 2 powi (k + 1)"
      using assms(2) by (intro fl_dyadic_pos) simp_all
    moreover have "(of_int (2 ^ 52) :: rat) * 2 powi (k + 1) = of_int (2 ^ 53) * 2 powi k"
      by (simp add: two_powi_Suc)
    ultimately show ?thesis using True by simp
  next
    case False
    with that assms(2) show ?thesis by (intro fl_dyadic_pos) simp_all
  qed
  consider "m = 0" | "0 < m" | "m < 0" by linarith
  then show ?thesis
  proof cases
    case 1
    then show ?thesis by simp
  next
    case 2
    with assms(1) show ?thesis by (intro pos) simp_all
  next
    case 3
    with assms(1) have "fl (of_int (- m) * 2 powi k) = of_int (- m) * 2 powi k"
      by (intro pos) simp_all
    then show ?thesis using fl_minus [of "of_int m * 2 powi k"] by simp
  qed
qed

lemma fl_of_int: "\<bar>n\<bar> \<le> 2 ^ 53 \<Longrightarrow> fl (of_int n) = of_int n"
  using fl_dyadic [of n 0] by simp

lemma fl_half_int: "\<bar>n\<bar> \<le> 2 ^ 53 \<Longrightarrow> fl (of_int n / 2) = of_int n / 2"
  using fl_dyadic [of n "- 1"] by (simp add: power_int_minus_divide)

section \<open>The operations on integers\<close>

text \<open>
  On integers of magnitude up to \<open>2\<^sup>5\<^sup>3\<close> addition, subtraction, multiplication and
  halving are exact, and the comparisons are those of the integers.
\<close>

lemma max_double_ge: "(2::rat) ^ 53 \<le> max_double"
  by (simp add: max_double_def)

lemma round_double_exact:
  assumes "fl r = r" and "\<bar>r\<bar> \<le> max_double" and "r \<noteq> 0"
  shows "round_double r = Fin r"
  using assms by (auto simp: round_double_def Let_def)

lemma abs_int_le_max_double: "\<bar>n\<bar> \<le> 2 ^ 53 \<Longrightarrow> \<bar>of_int n :: rat\<bar> \<le> max_double"
proof -
  assume "\<bar>n\<bar> \<le> 2 ^ 53"
  then have "(of_int \<bar>n\<bar> :: rat) \<le> of_int (2 ^ 53)" by (simp only: of_int_le_iff)
  with max_double_ge show ?thesis by simp
qed

lemma round_double_int: "\<bar>n\<bar> \<le> 2 ^ 53 \<Longrightarrow> n \<noteq> 0 \<Longrightarrow> round_double (of_int n) = js_int n"
  by (simp add: round_double_exact fl_of_int abs_int_le_max_double js_int_def)

lemma round_double_half_int:
  assumes "\<bar>n\<bar> \<le> 2 ^ 53" and "n \<noteq> 0"
  shows "round_double (of_int n / 2) = Fin (of_int n / 2)"
proof (rule round_double_exact)
  from assms(1) show "fl (of_int n / 2) = of_int n / 2" by (rule fl_half_int)
  from abs_int_le_max_double [OF assms(1)] show "\<bar>of_int n / 2 :: rat\<bar> \<le> max_double"
    by simp
  from assms(2) show "(of_int n / 2 :: rat) \<noteq> 0" by simp
qed

lemma js_int_simps [simp]:
  "is_finite (js_int n)" "val (js_int n) = of_int n" "js_int n \<noteq> NaN" "js_int n \<noteq> NegZero"
  "js_int n \<noteq> PInf" "js_int n \<noteq> NInf" "is_negative (js_int n) \<longleftrightarrow> n < 0"
  "js_int m = js_int n \<longleftrightarrow> m = n"
  by (simp_all add: js_int_def)

lemma js_add_int: "\<bar>a + b\<bar> \<le> 2 ^ 53 \<Longrightarrow> js_add (js_int a) (js_int b) = js_int (a + b)"
  using round_double_int [of "a + b"]
  by (auto simp: js_add_def signed_zero_def js_int_def simp flip: of_int_add)

lemma js_neg_int: "n \<noteq> 0 \<Longrightarrow> js_neg (js_int n) = js_int (- n)"
  by (simp add: js_int_def)

lemma js_add_NegZero: "\<bar>a\<bar> \<le> 2 ^ 53 \<Longrightarrow> js_add (js_int a) NegZero = js_int a"
  using round_double_int [of a]
  by (auto simp: js_add_def signed_zero_def js_int_def)

lemma js_sub_int:
  "\<bar>a\<bar> \<le> 2 ^ 53 \<Longrightarrow> \<bar>a - b\<bar> \<le> 2 ^ 53 \<Longrightarrow> js_sub (js_int a) (js_int b) = js_int (a - b)"
  using js_add_int [of a "- b"] js_add_NegZero [of a]
  by (cases "b = 0") (simp_all add: js_sub_def js_neg_int, simp add: js_int_def)

lemma js_mul_int:
  "0 \<le> a \<Longrightarrow> 0 \<le> b \<Longrightarrow> a * b \<le> 2 ^ 53 \<Longrightarrow> js_mul (js_int a) (js_int b) = js_int (a * b)"
  using round_double_int [of "a * b"]
  by (auto simp: js_mul_def signed_zero_def js_int_def Let_def simp flip: of_int_mult)

lemma js_mul_one: "0 \<le> a \<Longrightarrow> a \<le> 2 ^ 53 \<Longrightarrow> js_mul (js_int a) (js_int 1) = js_int a"
  using js_mul_int [of a 1] by simp

lemma js_half_int:
  "\<bar>a\<bar> \<le> 2 ^ 53 \<Longrightarrow> js_div (js_int a) (js_int 2) = (Fin (of_int a / 2))"
  using round_double_half_int [of a]
  by (auto simp: js_div_def signed_zero_def js_int_def Let_def)

lemma js_floor_half_int:
  "\<bar>a\<bar> \<le> 2 ^ 53 \<Longrightarrow> js_floor (js_div (js_int a) (js_int 2)) = js_int (a div 2)"
proof -
  assume "\<bar>a\<bar> \<le> 2 ^ 53"
  then have "js_floor (js_div (js_int a) (js_int 2)) = Fin (of_int \<lfloor>rat_of_int a / 2\<rfloor>)"
    by (simp only: js_half_int js_floor.simps)
  also have "\<lfloor>rat_of_int a / 2\<rfloor> = a div 2"
    using floor_divide_of_int_eq [of a 2, where ?'a = rat] by simp
  finally show ?thesis by (simp only: js_int_def)
qed

lemma js_floor_int [simp]: "js_floor (js_int n) = js_int n"
  by (simp add: js_int_def)

lemma js_lt_int [simp]: "js_lt (js_int a) (js_int b) \<longleftrightarrow> a < b"
  by (simp add: js_lt_def)

lemma js_gt_int [simp]: "js_gt (js_int a) (js_int b) \<longleftrightarrow> b < a"
  by (simp add: js_gt_def)

lemma js_strict_neq_int [simp]: "js_strict_neq (js_int a) (js_int b) \<longleftrightarrow> a \<noteq> b"
  by (simp add: js_strict_neq_def)

lemma js_add_NegZero_left: "\<bar>a\<bar> \<le> 2 ^ 53 \<Longrightarrow> js_add NegZero (js_int a) = js_int a"
  using round_double_int [of a]
  by (auto simp: js_add_def signed_zero_def js_int_def)

lemma js_neg_int_0 [simp]: "js_neg (js_int 0) = NegZero"
  by (simp add: js_int_def)

lemma js_add_neg_start:
  assumes "0 \<le> ls" and "0 \<le> h" and "ls \<le> 2 ^ 52" and "h \<le> 2 ^ 52"
  shows "js_add (js_add (js_neg (js_int ls)) (js_int h)) (js_int ls) = js_int h"
proof (cases "ls = 0")
  case True
  with assms show ?thesis
    by (simp add: js_add_NegZero_left js_add_int)
next
  case False
  with assms show ?thesis by (simp add: js_neg_int js_add_int)
qed

lemma js_gt_neg_int: "0 \<le> ls \<Longrightarrow> - ls \<le> ch \<Longrightarrow> \<not> js_gt (js_neg (js_int ls)) (js_int ch)"
  by (cases "ls = 0") (simp_all add: js_neg_int, simp add: js_gt_def js_lt_def)

section \<open>Evaluation on literals\<close>

lemma fl_numeral [js_eval]:
  "fl (numeral a) = fl_frac (numeral a) 1"
  "fl 1 = fl_frac 1 1"
  "fl (numeral a / numeral b) = fl_frac (numeral a) (numeral b)"
  "fl (1 / numeral b) = fl_frac 1 (numeral b)"
  using fl_frac [of "numeral a" 1] fl_frac [of 1 1] fl_frac [of "numeral a" "numeral b"]
    fl_frac [of 1 "numeral b"]
  by simp_all

lemma fl_neg_numeral [js_eval]:
  "fl (- numeral a) = - fl_frac (numeral a) 1"
  "fl (- 1) = - fl_frac 1 1"
  "fl (- (numeral a / numeral b)) = - fl_frac (numeral a) (numeral b)"
  "fl (- (1 / numeral b)) = - fl_frac 1 (numeral b)"
  by (simp_all only: fl_minus fl_numeral)

lemma floor_rat_numeral [js_eval]:
  "\<lfloor>numeral a / numeral b :: rat\<rfloor> = numeral a div numeral b"
  "\<lfloor>- (numeral a / numeral b) :: rat\<rfloor> = - numeral a div numeral b"
  "\<lfloor>1 / numeral b :: rat\<rfloor> = 1 div numeral b"
  "\<lfloor>- (1 / numeral b) :: rat\<rfloor> = - 1 div numeral b"
  using floor_divide_of_int_eq [of "numeral a" "numeral b", where ?'a = rat]
    floor_divide_of_int_eq [of "- numeral a" "numeral b", where ?'a = rat]
    floor_divide_of_int_eq [of 1 "numeral b", where ?'a = rat]
    floor_divide_of_int_eq [of "- 1" "numeral b", where ?'a = rat]
  by simp_all

lemmas js_eval_defs [js_eval] =
  js_add_def js_sub_def js_mul_def js_div_def js_lt_def js_gt_def js_strict_neq_def
  signed_zero_def signed_inf_def js_int_def round_double_def max_double_def
  fl_frac_def flog2_frac_def rne_div_def bitlen_numeral_simps Let_def

section \<open>Signs\<close>

lemma rne_nonneg: "0 \<le> x \<Longrightarrow> 0 \<le> rne x"
  by (auto simp: rne_def Let_def intro: add_nonneg_nonneg)

lemma fl_nonneg: "0 \<le> r \<Longrightarrow> 0 \<le> fl r"
  by (simp add: fl_def rne_nonneg)

section \<open>Quotients by integer arithmetic\<close>

text \<open>
  The quotient of two positive integers, as \<^verbatim>\<open>width / svg.width\<close> and
  \<^verbatim>\<open>height / totalHeight\<close> compute it, is the value the integer routine \<open>fl_frac\<close>
  returns: the rounding defined on rationals with \<open>floor\<close> and the rounding computed
  with \<open>div\<close>, \<open>mod\<close> and bit lengths agree.
\<close>

lemma js_div_int:
  assumes "0 < a" and "0 < b"
  shows "js_div (js_int a) (js_int b) =
         (let q = fl_frac a b in if max_double < q then PInf else Fin q)"
proof -
  from assms have "0 \<le> fl (of_int a / of_int b)" by (intro fl_nonneg) simp
  moreover have "0 \<le> max_double" by (simp add: max_double_def)
  moreover from assms have "\<not> rat_of_int a / rat_of_int b < 0" by (simp add: not_less)
  ultimately show ?thesis
    using assms by (simp add: js_div_def round_double_def Let_def fl_frac)
qed

lemma js_div_example:
  "js_div (js_int 968) (js_int 1086) = Fin (8028516462789393 / 9007199254740992)"
  using js_div_int [of 968 1086]
  by (simp add: js_eval)

end
