(* ===== verification/JS_Rounding.thy ===== *)
theory JS_Rounding
  imports JS_Number
begin

text \<open>
  The analysis of the rounding \<open>fl\<close> of \<open>JS_Number\<close> that the layout theorems need:
  rounding is monotone and idempotent, its error is at most half a unit in the last
  place (a relative error of \<open>2\<^sup>-\<^sup>5\<^sup>3\<close> in the normal range), the operators of the
  layout code return binary64 values, and scaling an integer by the rounded quotient
  \<open>a / b\<close> and back misses \<open>a\<close> by less than a sixteenth.
\<close>

section \<open>Constants of the format\<close>

text \<open>The smallest normal number, and the factor by which rounding enlarges at most.\<close>

definition min_normal :: rat where
  "min_normal = 2 powi (- 1022)"

definition one_ulp :: rat where
  "one_ulp = 1 + 1 / 2 ^ 53"

section \<open>Rounding to the nearest integer, and the significand\<close>

lemma rne_bounds: "of_int (rne x) \<le> x + 1 / 2" "x - 1 / 2 \<le> of_int (rne x)"
  by (auto simp: rne_def Let_def) linarith+

lemma rne_cases: "rne x = \<lfloor>x\<rfloor> \<or> rne x = \<lfloor>x\<rfloor> + 1"
  by (simp add: rne_def Let_def)

lemma rne_mono:
  assumes "x \<le> y"
  shows "rne x \<le> rne y"
proof (cases "\<lfloor>x\<rfloor> = \<lfloor>y\<rfloor>")
  case True
  with assms have "x - of_int \<lfloor>x\<rfloor> \<le> y - of_int \<lfloor>y\<rfloor>" by simp
  with True show ?thesis by (auto simp: rne_def Let_def)
next
  case False
  with assms have "\<lfloor>x\<rfloor> + 1 \<le> \<lfloor>y\<rfloor>" using floor_mono [OF assms] by linarith
  moreover have "rne x \<le> \<lfloor>x\<rfloor> + 1" "\<lfloor>y\<rfloor> \<le> rne y"
    using rne_cases [of x] rne_cases [of y] by auto
  ultimately show ?thesis by linarith
qed

lemma flog2_mono:
  assumes "0 < r" and "r \<le> s"
  shows "flog2 r \<le> flog2 s"
proof -
  from assms have "0 < s" by simp
  from flog2_bounds(1) [OF assms(1)] assms(2) flog2_bounds(2) [OF \<open>0 < s\<close>]
  have "(2::rat) powi flog2 r < 2 powi (flog2 s + 1)" by linarith
  then show ?thesis by simp
qed

lemma ulp_exp_mono: "0 < r \<Longrightarrow> r \<le> s \<Longrightarrow> ulp_exp r \<le> ulp_exp s"
  using flog2_mono [of r s] by (simp add: ulp_exp_def)

lemma ulp_exp_ge: "- 1074 \<le> ulp_exp r"
  by (simp add: ulp_exp_def)

text \<open>The scaled significand of a positive number is below \<open>2\<^sup>5\<^sup>3\<close>.\<close>

lemma scaled_less:
  assumes "0 < r"
  shows "r / 2 powi ulp_exp r < 2 ^ 53"
proof -
  have "flog2 r + 1 \<le> ulp_exp r + 53" using assms by (simp add: ulp_exp_def)
  then have "(2::rat) powi (flog2 r + 1) \<le> 2 powi (ulp_exp r + 53)" by simp
  with flog2_bounds(2) [OF assms] have "r < 2 powi (ulp_exp r + 53)" by linarith
  also have "\<dots> = 2 powi ulp_exp r * 2 ^ 53" by (simp add: power_int_add)
  finally show ?thesis by (simp add: pos_divide_less_eq mult.commute)
qed

lemma scaled_ge:
  assumes "0 < r" and "- 1022 \<le> flog2 r"
  shows "2 ^ 52 \<le> r / 2 powi ulp_exp r"
proof -
  from assms have u: "ulp_exp r = flog2 r - 52" by (simp add: ulp_exp_def)
  have "(2::rat) powi ulp_exp r * 2 ^ 52 = 2 powi flog2 r"
    by (simp add: u power_int_diff)
  with flog2_bounds(1) [OF assms(1)] show ?thesis
    by (simp add: pos_le_divide_eq mult.commute)
qed

lemma fl_pos_eq: "0 < r \<Longrightarrow> fl r = of_int (rne (r / 2 powi ulp_exp r)) * 2 powi ulp_exp r"
  by (simp add: fl_def)

lemma fl_upper:
  assumes "0 < r"
  shows "fl r \<le> 2 powi (ulp_exp r + 53)"
proof -
  have "rne (r / 2 powi ulp_exp r) \<le> rne (2 ^ 53)"
    using scaled_less [OF assms] by (intro rne_mono) simp
  also have "rne ((2::rat) ^ 53) = 2 ^ 53" using rne_of_int [of "2 ^ 53"] by simp
  finally have "(of_int (rne (r / 2 powi ulp_exp r)) :: rat) \<le> 2 ^ 53"
    by (metis of_int_le_iff of_int_numeral of_int_power)
  then have "fl r \<le> 2 ^ 53 * 2 powi ulp_exp r"
    using assms by (simp add: fl_pos_eq)
  then show ?thesis by (simp add: power_int_add mult.commute)
qed

lemma fl_lower:
  assumes "0 < r" and "- 1022 \<le> flog2 r"
  shows "2 powi flog2 r \<le> fl r"
proof -
  from assms have u: "ulp_exp r = flog2 r - 52" by (simp add: ulp_exp_def)
  have "rne (2 ^ 52) \<le> rne (r / 2 powi ulp_exp r)"
    using scaled_ge [OF assms] by (intro rne_mono)
  moreover have "rne ((2::rat) ^ 52) = 2 ^ 52" using rne_of_int [of "2 ^ 52"] by simp
  ultimately have "(2::rat) ^ 52 \<le> of_int (rne (r / 2 powi ulp_exp r))"
    by (metis of_int_le_iff of_int_numeral of_int_power)
  then have "2 ^ 52 * 2 powi ulp_exp r \<le> fl r"
    using assms by (simp add: fl_pos_eq)
  moreover have "(2::rat) ^ 52 * 2 powi ulp_exp r = 2 powi flog2 r"
    by (simp add: u power_int_diff)
  ultimately show ?thesis by simp
qed

section \<open>Monotonicity, error and idempotence\<close>

lemma ulp_exp_pos: "0 < r \<Longrightarrow> ulp_exp r = max (flog2 r) (- 1022) - 52"
  by (simp add: ulp_exp_def)

lemma fl_mono_pos:
  assumes "0 < r" and "r \<le> s"
  shows "fl r \<le> fl s"
proof (cases "ulp_exp r = ulp_exp s")
  case True
  from assms have "0 < s" by simp
  have "rne (r / 2 powi ulp_exp s) \<le> rne (s / 2 powi ulp_exp s)"
    using assms by (intro rne_mono) (simp add: divide_right_mono)
  then have "(of_int (rne (r / 2 powi ulp_exp s)) :: rat) \<le> of_int (rne (s / 2 powi ulp_exp s))"
    by (simp only: of_int_le_iff)
  with assms \<open>0 < s\<close> True show ?thesis by (simp add: fl_pos_eq)
next
  case False
  from assms have "0 < s" by simp
  from False ulp_exp_mono [OF assms] have lt: "ulp_exp r + 1 \<le> ulp_exp s" by simp
  with assms(1) \<open>0 < s\<close> have n: "- 1022 \<le> flog2 s" and u: "ulp_exp s = flog2 s - 52"
    by (auto simp: ulp_exp_pos max_def split: if_splits)
  from lt u have "ulp_exp r + 53 \<le> flog2 s" by simp
  then have "(2::rat) powi (ulp_exp r + 53) \<le> 2 powi flog2 s" by simp
  with fl_upper [OF assms(1)] fl_lower [OF \<open>0 < s\<close> n] show ?thesis by linarith
qed

lemma fl_nonpos: "r \<le> 0 \<Longrightarrow> fl r \<le> 0"
  using fl_nonneg [of "- r"] by (simp add: fl_minus)

lemma fl_mono:
  assumes "r \<le> s"
  shows "fl r \<le> fl s"
proof -
  consider "0 < r" | "r \<le> 0" "0 \<le> s" | "s < 0" by linarith
  then show ?thesis
  proof cases
    case 1
    then show ?thesis using assms by (rule fl_mono_pos)
  next
    case 2
    then show ?thesis using fl_nonpos [of r] fl_nonneg [of s] by linarith
  next
    case 3
    with assms have "fl (- s) \<le> fl (- r)" by (intro fl_mono_pos) simp_all
    then show ?thesis by (simp add: fl_minus)
  qed
qed

lemma fl_error:
  "\<bar>fl r - r\<bar> \<le> 2 powi ulp_exp r / 2"
proof (cases "r = 0")
  case True
  then show ?thesis by simp
next
  case False
  let ?u = "(2::rat) powi ulp_exp r" and ?x = "r / 2 powi ulp_exp r"
  have "\<bar>of_int (rne ?x) - ?x\<bar> \<le> 1 / 2" using rne_bounds [of ?x] by linarith
  then have "\<bar>of_int (rne ?x) - ?x\<bar> * ?u \<le> 1 / 2 * ?u"
    by (intro mult_right_mono) simp_all
  moreover have "(of_int (rne ?x) - ?x) * ?u = of_int (rne ?x) * ?u - r"
    by (simp add: left_diff_distrib)
  then have "\<bar>of_int (rne ?x) - ?x\<bar> * ?u = \<bar>of_int (rne ?x) * ?u - r\<bar>"
    by (metis abs_mult abs_of_pos two_powi_pos)
  ultimately show ?thesis using False by (simp add: fl_def)
qed

lemma fl_rel_error:
  assumes "2 powi (- 1022) \<le> \<bar>r\<bar>"
  shows "\<bar>fl r - r\<bar> \<le> \<bar>r\<bar> / 2 ^ 53"
proof -
  from assms have pos: "0 < \<bar>r\<bar>" using two_powi_pos [of "- 1022"] by linarith
  from flog2_bounds(2) [OF pos] assms have "(2::rat) powi (- 1022) < 2 powi (flog2 \<bar>r\<bar> + 1)"
    by linarith
  then have "- 1022 < flog2 \<bar>r\<bar> + 1" by (simp only: two_powi_less_iff)
  then have u: "ulp_exp r = flog2 \<bar>r\<bar> - 52" by (simp add: ulp_exp_def)
  have "(2::rat) powi ulp_exp r / 2 = 2 powi flog2 \<bar>r\<bar> / 2 ^ 53"
    by (simp add: u power_int_diff)
  also have "\<dots> \<le> \<bar>r\<bar> / 2 ^ 53"
    using flog2_bounds(1) [OF pos] by (simp add: divide_right_mono)
  finally show ?thesis using fl_error [of r] by linarith
qed

lemma fl_idem [simp]: "fl (fl r) = fl r"
proof -
  have pos: "fl (fl r) = fl r" if "0 < r" for r
  proof -
    let ?m = "rne (r / 2 powi ulp_exp r)"
    have "?m \<le> rne (2 ^ 53)" using scaled_less [OF that] by (intro rne_mono) simp
    moreover have "rne ((2::rat) ^ 53) = 2 ^ 53" using rne_of_int [of "2 ^ 53"] by simp
    moreover have "0 \<le> ?m" using that by (intro rne_nonneg) simp
    ultimately have "\<bar>?m\<bar> \<le> 2 ^ 53" by simp
    then have "fl (of_int ?m * 2 powi ulp_exp r) = of_int ?m * 2 powi ulp_exp r"
      using ulp_exp_ge [of r] by (rule fl_dyadic)
    with that show ?thesis by (simp add: fl_pos_eq)
  qed
  consider "r = 0" | "0 < r" | "r < 0" by linarith
  then show ?thesis
  proof cases
    case 3
    then have "fl (fl (- r)) = fl (- r)" by (intro pos) simp
    then show ?thesis by (simp add: fl_minus)
  qed (simp_all add: pos)
qed

section \<open>The operators return binary64 values\<close>

lemma representable_0 [simp]: "representable 0"
  by (simp add: representable_def max_double_def)

lemma representable_minus [simp]: "representable (- r) \<longleftrightarrow> representable r"
  by (auto simp: representable_def fl_minus)

lemma representable_fl: "\<bar>fl r\<bar> \<le> max_double \<Longrightarrow> representable (fl r)"
  by (simp add: representable_def)

lemma representable_int: "\<bar>n\<bar> \<le> 2 ^ 53 \<Longrightarrow> representable (of_int n)"
  by (simp add: representable_def fl_of_int abs_int_le_max_double)

lemma is_double_round_double [simp]: "is_double (round_double r)"
  by (auto simp: round_double_def Let_def representable_def)

lemma is_double_signed [simp]: "is_double (signed_zero neg)" "is_double (signed_inf neg)"
  by (simp_all add: signed_zero_def signed_inf_def)

lemma is_double_js_int: "\<bar>n\<bar> \<le> 2 ^ 53 \<Longrightarrow> is_double (js_int n)"
  by (simp add: js_int_def representable_int)

lemma is_double_neg [simp]: "is_double (js_neg a) \<longleftrightarrow> is_double a"
  by (cases a) auto

lemma is_double_add: "is_double a \<Longrightarrow> is_double b \<Longrightarrow> is_double (js_add a b)"
  by (simp add: js_add_def)

lemma is_double_sub: "is_double a \<Longrightarrow> is_double b \<Longrightarrow> is_double (js_sub a b)"
  by (simp add: js_sub_def is_double_add)

lemma is_double_mul [simp]: "is_double (js_mul a b)"
  by (simp add: js_mul_def Let_def)

lemma is_double_div [simp]: "is_double (js_div a b)"
  by (simp add: js_div_def Let_def)

text \<open>A binary64 value of magnitude at least \<open>2\<^sup>5\<^sup>2\<close> is an integer.\<close>

lemma representable_large_int:
  assumes "representable r" and "2 ^ 52 \<le> \<bar>r\<bar>"
  shows "of_int \<lfloor>r\<rfloor> = r"
proof -
  have pos: "of_int \<lfloor>r\<rfloor> = r" if "fl r = r" "2 ^ 52 \<le> r" for r :: rat
  proof -
    from that have r: "0 < r" by (simp add: less_le_trans [of 0 "2 ^ 52"])
    from that have "(2::rat) powi 52 \<le> r" by simp
    with flog2_bounds(2) [OF r] have "(2::rat) powi 52 < 2 powi (flog2 r + 1)" by linarith
    then have "52 < flog2 r + 1" by (simp only: two_powi_less_iff)
    with r have u: "0 \<le> ulp_exp r" by (simp add: ulp_exp_pos)
    from that(1) r have "r = of_int (rne (r / 2 powi ulp_exp r)) * 2 powi ulp_exp r"
      by (simp add: fl_pos_eq)
    also have "\<dots> = of_int (rne (r / 2 powi ulp_exp r) * 2 ^ nat (ulp_exp r))"
      using u by (simp add: two_powi_nat)
    finally obtain n :: int where "r = of_int n" by blast
    then show ?thesis by simp
  qed
  show ?thesis
  proof (cases "0 \<le> r")
    case True
    with assms show ?thesis by (intro pos) (simp_all add: representable_def)
  next
    case False
    with assms have "of_int \<lfloor>- r\<rfloor> = - r"
      by (intro pos) (simp_all add: representable_def fl_minus)
    then obtain n :: int where "- r = of_int n" by metis
    then have "r = of_int (- n)" by simp
    then show ?thesis by (metis floor_of_int)
  qed
qed

lemma representable_floor:
  assumes "representable r"
  shows "representable (of_int \<lfloor>r\<rfloor>)"
proof (cases "2 ^ 52 \<le> \<bar>r\<bar>")
  case True
  with assms show ?thesis by (simp add: representable_large_int)
next
  case False
  then have r: "of_int (- (2 ^ 52)) \<le> r" "r \<le> of_int (2 ^ 52)" by simp_all
  have "- (2 ^ 52) \<le> \<lfloor>r\<rfloor>" using floor_mono [OF r(1)] by (simp only: floor_of_int)
  moreover have "\<lfloor>r\<rfloor> \<le> 2 ^ 52" using floor_mono [OF r(2)] by (simp only: floor_of_int)
  moreover have "(2::int) ^ 53 = 2 * 2 ^ 52" "0 \<le> (2::int) ^ 52" by simp_all
  ultimately have "\<bar>\<lfloor>r\<rfloor>\<bar> \<le> 2 ^ 53" by linarith
  then show ?thesis by (rule representable_int)
qed

lemma representable_ceiling:
  assumes "representable r"
  shows "representable (of_int \<lceil>r\<rceil>)"
  using representable_floor [of "- r"] assms by (simp add: ceiling_def)

lemma is_double_floor: "is_double a \<Longrightarrow> is_double (js_floor a)"
  by (cases a) (simp_all add: representable_floor)

lemma is_double_ceil: "is_double a \<Longrightarrow> is_double (js_ceil a)"
  by (cases a) (simp_all add: representable_ceiling)

lemmas is_double_intros =
  is_double_add is_double_sub is_double_mul is_double_div is_double_floor is_double_ceil
  is_double_js_int

section \<open>Quotients of integers\<close>

lemma round_double_between:
  assumes "fl lo = lo" and "fl hi = hi" and "lo \<le> r" and "r \<le> hi" and "0 < lo"
    and "hi \<le> max_double"
  shows "round_double r = Fin (fl r)" and "lo \<le> fl r" and "fl r \<le> hi"
proof -
  from fl_mono [OF assms(3)] assms(1) show lo: "lo \<le> fl r" by simp
  from fl_mono [OF assms(4)] assms(2) show hi: "fl r \<le> hi" by simp
  from lo hi assms(5,6) show "round_double r = Fin (fl r)"
    by (simp add: round_double_def Let_def)
qed

text \<open>Sixteenths next to integers up to \<open>2\<^sup>4\<^sup>8\<close> are binary64 values.\<close>

lemma fl_sixteenth: "\<bar>n\<bar> \<le> 2 ^ 53 \<Longrightarrow> fl (of_int n / 16) = of_int n / 16"
  using fl_dyadic [of n "- 4"] by (simp add: power_int_minus_divide)

lemma fl_near_int:
  assumes "0 \<le> a" and "a \<le> 2 ^ 48"
  shows "fl (of_int a + 1 / 16) = of_int a + 1 / 16" and "fl (of_int a - 1 / 16) = of_int a - 1 / 16"
proof -
  have "(of_int a + 1 / 16 :: rat) = of_int (16 * a + 1) / 16"
    "(of_int a - 1 / 16 :: rat) = of_int (16 * a - 1) / 16" by simp_all
  moreover from assms have "\<bar>16 * a + 1\<bar> \<le> 2 ^ 53" "\<bar>16 * a - 1\<bar> \<le> 2 ^ 53" by simp_all
  ultimately show "fl (of_int a + 1 / 16) = of_int a + 1 / 16"
    and "fl (of_int a - 1 / 16) = of_int a - 1 / 16"
    by (simp_all only: fl_sixteenth)
qed

text \<open>The quotient of two integers \<open>0 < a < b \<le> 2\<^sup>4\<^sup>9\<close>.\<close>

lemma quotient_bounds:
  assumes "0 < a" and "a < b" and "b \<le> 2 ^ 49"
  shows "js_div (js_int a) (js_int b) = Fin (fl (of_int a / of_int b))"
    and "0 < fl (of_int a / of_int b)" and "fl (of_int a / of_int b) < 1"
    and "\<bar>fl (of_int a / of_int b) - of_int a / of_int b\<bar> \<le> (of_int a / of_int b) / 2 ^ 53"
proof -
  let ?q = "rat_of_int a / of_int b"
  from assms have b: "0 < b" by simp
  have lo: "2 powi (- 49) \<le> ?q"
  proof -
    from assms have "rat_of_int b \<le> of_int (2 ^ 49)" by (simp only: of_int_le_iff)
    moreover from assms have "1 \<le> rat_of_int a" by simp
    ultimately have "1 / 2 ^ 49 \<le> ?q" using b by (intro frac_le) simp_all
    then show ?thesis by (simp add: power_int_minus_divide)
  qed
  have hi: "?q \<le> 1 - 2 powi (- 49)"
  proof -
    from assms have "a \<le> b - 1" by simp
    then have "rat_of_int a \<le> of_int (b - 1)" by (simp only: of_int_le_iff)
    then have "rat_of_int a \<le> of_int b - 1" by simp
    then have "?q \<le> (of_int b - 1) / of_int b" using b by (simp add: divide_right_mono)
    also have "\<dots> = 1 - 1 / of_int b" using b by (simp add: diff_divide_distrib)
    also have "\<dots> \<le> 1 - 1 / 2 ^ 49"
    proof -
      from assms have "rat_of_int b \<le> of_int (2 ^ 49)" by (simp only: of_int_le_iff)
      then have "1 / (2 ^ 49 :: rat) \<le> 1 / of_int b" using b by (intro frac_le) simp_all
      then show ?thesis by simp
    qed
    finally show ?thesis by (simp add: power_int_minus_divide)
  qed
  have flo: "fl (2 powi (- 49)) = 2 powi (- 49)" using fl_dyadic [of 1 "- 49"] by simp
  have "(1 :: rat) - 2 powi (- 49) = of_int (2 ^ 49 - 1) * 2 powi (- 49)"
    by (simp add: power_int_minus_divide)
  then have fhi: "fl (1 - 2 powi (- 49)) = 1 - 2 powi (- 49)"
    using fl_dyadic [of "2 ^ 49 - 1" "- 49"] by simp
  have "(1 :: rat) - 2 powi (- 49) \<le> max_double"
    by (simp add: max_double_def power_int_minus_divide)
  note rb = round_double_between [OF flo fhi lo hi _ this]
  from rb(2) show "0 < fl ?q" using two_powi_pos [of "- 49"] by simp
  from rb(3) show "fl ?q < 1" using two_powi_pos [of "- 49"] by simp
  from assms b rb(1) show "js_div (js_int a) (js_int b) = Fin (fl ?q)"
    by (simp add: js_div_def Let_def)
  have "(2::rat) powi (- 1022) \<le> 2 powi (- 49)" by simp
  with lo have "2 powi (- 1022) \<le> \<bar>?q\<bar>" by linarith
  from fl_rel_error [OF this] assms b show "\<bar>fl ?q - ?q\<bar> \<le> ?q / 2 ^ 53" by simp
qed

section \<open>Scaling by a quotient\<close>

lemma scaled_back:
  assumes "0 < a" and "a < b" and "b \<le> 2 ^ 48"
  shows "of_int b * fl (of_int a / of_int b) \<le> of_int a + 1 / 16"
    and "of_int a - 1 / 16 \<le> of_int b * fl (of_int a / of_int b)"
proof -
  let ?q = "rat_of_int a / of_int b"
  from assms have b: "0 < rat_of_int b" and b49: "b \<le> 2 ^ 49" by simp_all
  from quotient_bounds(4) [OF assms(1,2) b49] have "\<bar>fl ?q - ?q\<bar> * of_int b \<le> ?q / 2 ^ 53 * of_int b"
    using b by (intro mult_right_mono) simp_all
  moreover have "\<bar>fl ?q - ?q\<bar> * of_int b = \<bar>of_int b * fl ?q - of_int a\<bar>"
  proof -
    have "(fl ?q - ?q) * of_int b = of_int b * fl ?q - of_int a"
      using b by (simp add: left_diff_distrib)
    then show ?thesis using b by (metis abs_mult abs_of_pos)
  qed
  moreover have "?q / 2 ^ 53 * of_int b = of_int a / 2 ^ 53" using b by simp
  moreover have "rat_of_int a / 2 ^ 53 \<le> 1 / 16"
  proof -
    from assms have "a \<le> 2 ^ 48" by simp
    then have "rat_of_int a \<le> of_int (2 ^ 48)" by (simp only: of_int_le_iff)
    then show ?thesis by simp
  qed
  ultimately have "\<bar>of_int b * fl ?q - of_int a\<bar> \<le> 1 / 16" by linarith
  then show "of_int b * fl ?q \<le> of_int a + 1 / 16" "of_int a - 1 / 16 \<le> of_int b * fl ?q"
    by linarith+
qed

lemma mul_floor_upper:
  assumes "0 < w" and "0 < q" and "of_int w * q \<le> of_int m + 1 / 16" and "0 \<le> m"
    and "m \<le> 2 ^ 48"
  shows "\<exists>n. js_floor (js_mul (js_int w) (Fin q)) = js_int n \<and> 0 \<le> n \<and> n \<le> m"
proof -
  let ?p = "rat_of_int w * q"
  from assms have p: "0 < ?p" by simp
  then have nn: "0 \<le> fl ?p" by (intro fl_nonneg) simp
  from fl_mono [OF assms(3)] fl_near_int(1) [OF assms(4,5)] have up: "fl ?p \<le> of_int m + 1 / 16"
    by simp
  have "rat_of_int m + 1 / 16 \<le> max_double"
  proof -
    from assms have "rat_of_int m \<le> of_int (2 ^ 48)" by (simp only: of_int_le_iff)
    then show ?thesis by (simp add: max_double_def)
  qed
  with up nn p have "round_double ?p = Fin (fl ?p)"
    by (simp add: round_double_def Let_def)
  with p assms(1,2) have "js_floor (js_mul (js_int w) (Fin q)) = js_int \<lfloor>fl ?p\<rfloor>"
    by (simp add: js_mul_def Let_def js_int_def)
  moreover from nn have "0 \<le> \<lfloor>fl ?p\<rfloor>" by simp
  moreover from up have "fl ?p < of_int (m + 1)" by simp
  then have "\<lfloor>fl ?p\<rfloor> < m + 1" by (simp only: floor_less_iff)
  then have "\<lfloor>fl ?p\<rfloor> \<le> m" by simp
  ultimately show ?thesis by blast
qed

section \<open>Differences next to an integer\<close>

text \<open>A binary64 value of at least one half is a multiple of \<open>2\<^sup>-\<^sup>5\<^sup>3\<close>.\<close>

lemma representable_grid:
  assumes "fl p = p" and "1 / 2 \<le> p"
  shows "\<exists>m. p = of_int m * 2 powi (- 53)"
proof -
  from assms have pos: "0 < p" by simp
  have "(2::rat) powi (- 1) \<le> p" using assms(2) by (simp add: power_int_minus_divide)
  with flog2_bounds(2) [OF pos] have "(2::rat) powi (- 1) < 2 powi (flog2 p + 1)" by linarith
  then have "- 1 < flog2 p + 1" by (simp only: two_powi_less_iff)
  with pos have u: "0 \<le> ulp_exp p + 53" by (simp add: ulp_exp_pos)
  define m where "m = rne (p / 2 powi ulp_exp p)"
  define k where "k = nat (ulp_exp p + 53)"
  from assms(1) pos have "p = of_int m * 2 powi ulp_exp p" by (simp add: fl_pos_eq m_def)
  moreover have "(2::rat) powi ulp_exp p = 2 powi (ulp_exp p + 53) * 2 powi (- 53)"
    using power_int_add [of "2::rat" "ulp_exp p + 53" "- 53"] by simp
  moreover have "(2::rat) powi (ulp_exp p + 53) = of_int (2 ^ k)"
    using u by (simp add: two_powi_nat k_def)
  ultimately have "p = of_int (m * 2 ^ k) * 2 powi (- 53)" by (simp only: of_int_mult mult.assoc)
  then show ?thesis by blast
qed

text \<open>
  The difference of an integer and a binary64 value next to it is exact, and so is its
  half: \<^verbatim>\<open>Math.floor((a - p) / 2)\<close> is \<open>-1\<close> when \<open>p\<close> is above \<open>a\<close>, else \<open>0\<close>.
\<close>

lemma fl_small_grid:
  assumes "d = of_int m * 2 powi (- 53)" and "\<bar>d\<bar> \<le> 1 / 16"
  shows "fl d = d" and "fl (d / 2) = d / 2"
proof -
  have "\<bar>rat_of_int m\<bar> \<le> 2 ^ 49"
  proof -
    from assms have "\<bar>rat_of_int m\<bar> * 2 powi (- 53) \<le> 1 / 16" by (simp add: abs_mult)
    then show ?thesis by (simp add: power_int_minus_divide)
  qed
  then have "\<bar>rat_of_int m\<bar> \<le> of_int (2 ^ 53)" by simp
  then have m: "\<bar>m\<bar> \<le> 2 ^ 53" by (metis of_int_abs of_int_le_iff)
  have "fl (of_int m * 2 powi (- 53)) = of_int m * 2 powi (- 53)"
    by (rule fl_dyadic [OF m]) simp
  then show "fl d = d" by (simp only: assms(1))
  have half: "d / 2 = of_int m * 2 powi (- 54)" by (simp add: assms(1) power_int_minus_divide)
  have "fl (of_int m * 2 powi (- 54)) = of_int m * 2 powi (- 54)"
    by (rule fl_dyadic [OF m]) simp
  then show "fl (d / 2) = d / 2" by (simp only: half)
qed

lemma round_double_small:
  assumes "fl d = d" and "\<bar>d\<bar> \<le> 1 / 16" and "d \<noteq> 0"
  shows "round_double d = Fin d"
proof -
  have "(1 / 16 :: rat) \<le> max_double" by (simp add: max_double_def)
  with assms show ?thesis by (intro round_double_exact) simp_all
qed

lemma floor_half_diff:
  assumes "fl p = p" and "\<bar>of_int a - p\<bar> \<le> 1 / 16" and "1 \<le> a"
  shows "js_floor (js_div (js_sub (js_int a) (Fin p)) (js_int 2)) =
         js_int (if of_int a < p then - 1 else 0)"
proof -
  let ?d = "of_int a - p"
  from assms have p: "1 / 2 \<le> p"
  proof -
    from assms(3) have "1 \<le> rat_of_int a" by simp
    with assms(2) show ?thesis by linarith
  qed
  from representable_grid [OF assms(1) p] obtain m where m: "p = of_int m * 2 powi (- 53)" by blast
  have "?d = of_int (a * 2 ^ 53 - m) * 2 powi (- 53)"
    by (simp add: m left_diff_distrib power_int_minus_divide)
  note ex = fl_small_grid [OF this assms(2)]
  from p have p0: "p \<noteq> 0" by simp
  have sub: "js_sub (js_int a) (Fin p) = Fin ?d"
    using round_double_small [OF ex(1) assms(2)] p0
    by (simp add: js_sub_def js_add_def signed_zero_def js_int_def)
  have half: "js_div (Fin ?d) (js_int 2) = Fin (?d / 2)"
  proof (cases "?d = 0")
    case True
    then show ?thesis by (simp add: js_div_def signed_zero_def js_int_def)
  next
    case False
    with assms(2) ex(2) have "round_double (?d / 2) = Fin (?d / 2)"
      by (intro round_double_small) simp_all
    with False show ?thesis by (simp add: js_div_def Let_def js_int_def)
  qed
  have "\<lfloor>?d / 2\<rfloor> = (if of_int a < p then - 1 else 0)"
  proof (cases "of_int a < p")
    case True
    with assms(2) have "- 1 \<le> ?d / 2" "?d / 2 < 0" by simp_all
    then have "\<lfloor>?d / 2\<rfloor> = - 1" by (intro floor_unique) simp_all
    with True show ?thesis by simp
  next
    case False
    with assms(2) have "0 \<le> ?d / 2" "?d / 2 < 1" by simp_all
    then have "\<lfloor>?d / 2\<rfloor> = 0" by (intro floor_unique) simp_all
    with False show ?thesis by simp
  qed
  with sub half show ?thesis by (simp add: js_int_def)
qed

section \<open>Non-negative operands\<close>

text \<open>Rounding a value between zero and a binary64 value.\<close>

lemma round_double_le:
  assumes "0 \<le> r" and "r \<le> hi" and "fl hi = hi" and "hi \<le> max_double"
  shows "round_double r = Fin (fl r)" and "0 \<le> fl r" and "fl r \<le> hi"
proof -
  from assms(1) show nn: "0 \<le> fl r" by (rule fl_nonneg)
  from fl_mono [OF assms(2)] assms(3) show hi: "fl r \<le> hi" by simp
  from nn hi assms(1,4) show "round_double r = Fin (fl r)"
    by (simp add: round_double_def Let_def)
qed

lemma int_le_max_double: "0 \<le> n \<Longrightarrow> n \<le> 2 ^ 53 \<Longrightarrow> rat_of_int n \<le> max_double"
  using abs_int_le_max_double [of n] by simp

lemma half_int_le_max_double: "0 \<le> n \<Longrightarrow> n \<le> 2 ^ 53 \<Longrightarrow> rat_of_int n / 2 \<le> max_double"
  using int_le_max_double [of n] by simp

text \<open>
  \<^verbatim>\<open>Math.floor((a - p) / 2)\<close> for \<open>0 \<le> p \<le> a\<close>: a margin that is not negative and
  leaves room for \<open>\<lfloor>p\<rfloor>\<close> and the same margin on the other side.
\<close>

lemma floor_half_sub:
  assumes "0 \<le> p" and "p \<le> of_int a" and "a \<le> 2 ^ 52"
  shows "\<exists>n. js_floor (js_div (js_sub (js_int a) (Fin p)) (js_int 2)) = js_int n
           \<and> 0 \<le> n \<and> 2 * n + \<lfloor>p\<rfloor> \<le> a"
proof -
  define f where "f = \<lfloor>p\<rfloor>"
  let ?k = "a - f"
  from assms(1) have k1: "0 \<le> f" by (simp add: f_def)
  from assms(2) have k2: "f \<le> a" by (simp add: f_def floor_le_iff)
  from k1 k2 assms(3) have k0: "0 \<le> ?k" "?k \<le> 2 ^ 53" by simp_all
  then have k: "\<bar>?k\<bar> \<le> 2 ^ 53" by simp
  from k1 k2 have a0: "0 \<le> a" by simp
  have le: "rat_of_int a - p \<le> of_int ?k" using of_int_floor_le [of p] by (simp add: f_def)
  from assms(2) have nn: "0 \<le> rat_of_int a - p" by simp
  note r = round_double_le [OF nn le fl_of_int [OF k] int_le_max_double [OF k0]]
  let ?x = "fl (rat_of_int a - p)"
  have sub: "js_sub (js_int a) (Fin p) = Fin ?x"
  proof (cases "p = 0")
    case True
    with a0 assms(3) show ?thesis
      by (simp add: js_sub_def js_add_NegZero fl_of_int) (simp add: js_int_def)
  next
    case False
    with r show ?thesis
      by (simp add: js_sub_def js_add_def signed_zero_def js_int_def)
  qed
  have half: "?x / 2 \<le> of_int ?k / 2" "0 \<le> ?x / 2" using r(2,3) by simp_all
  note h = round_double_le [OF half(2,1) fl_half_int [OF k] half_int_le_max_double [OF k0]]
  let ?y = "fl (?x / 2)"
  have "js_div (Fin ?x) (js_int 2) = Fin ?y"
    using h(1) by (cases "?x = 0") (simp_all add: js_div_def signed_zero_def js_int_def Let_def)
  with sub have "js_floor (js_div (js_sub (js_int a) (Fin p)) (js_int 2)) = js_int \<lfloor>?y\<rfloor>"
    by (simp add: js_int_def)
  moreover from h(2) have "0 \<le> \<lfloor>?y\<rfloor>" by simp
  moreover have "2 * \<lfloor>?y\<rfloor> + \<lfloor>p\<rfloor> \<le> a"
  proof -
    have "rat_of_int \<lfloor>?y\<rfloor> \<le> of_int ?k / 2" using h(3) of_int_floor_le [of ?y] by linarith
    then have "rat_of_int (2 * \<lfloor>?y\<rfloor>) \<le> of_int ?k" by simp
    then have "2 * \<lfloor>?y\<rfloor> \<le> ?k" by (simp only: of_int_le_iff)
    then show ?thesis by (simp add: f_def)
  qed
  ultimately show ?thesis by blast
qed

text \<open>Scaling a size by a factor in \<open>(0, 1]\<close>, and adding two scaled sizes.\<close>

lemma js_mul_scale:
  assumes "0 \<le> n" and "n \<le> 2 ^ 53" and "0 < g" and "g \<le> 1"
  shows "js_mul (js_int n) (Fin g) = Fin (fl (of_int n * g))"
    and "0 \<le> fl (of_int n * g)" and "fl (of_int n * g) \<le> of_int n"
proof -
  let ?p = "rat_of_int n * g"
  from assms have an: "\<bar>n\<bar> \<le> 2 ^ 53" by simp
  from assms have "?p \<le> of_int n * 1" by (intro mult_left_mono) simp_all
  then have p: "0 \<le> ?p" "?p \<le> of_int n" using assms by simp_all
  note r = round_double_le [OF p fl_of_int [OF an] int_le_max_double [OF assms(1,2)]]
  from r show "0 \<le> fl ?p" "fl ?p \<le> of_int n" by simp_all
  from r(1) assms(3) show "js_mul (js_int n) (Fin g) = Fin (fl ?p)"
    by (cases "n = 0") (simp_all add: js_mul_def signed_zero_def js_int_def Let_def)
qed

lemma js_add_nonneg:
  assumes "0 \<le> a" and "0 \<le> b" and "a + b \<le> of_int n" and "n \<le> 2 ^ 53"
  shows "js_add (Fin a) (Fin b) = Fin (fl (a + b))"
    and "0 \<le> fl (a + b)" and "fl (a + b) \<le> of_int n"
proof -
  from assms(1,2) have nn: "0 \<le> a + b" by simp
  with assms(3) have "0 \<le> rat_of_int n" by linarith
  then have n: "0 \<le> n" by simp
  with assms(4) have an: "\<bar>n\<bar> \<le> 2 ^ 53" by simp
  note r = round_double_le [OF nn assms(3) fl_of_int [OF an] int_le_max_double [OF n assms(4)]]
  from r show "0 \<le> fl (a + b)" "fl (a + b) \<le> of_int n" by simp_all
  from r(1) show "js_add (Fin a) (Fin b) = Fin (fl (a + b))"
    by (cases "a + b = 0") (simp_all add: js_add_def signed_zero_def)
qed

section \<open>Relative error of sums of scaled sizes\<close>

lemma min_normal_pos: "0 < min_normal"
  by (simp add: min_normal_def)

lemma one_ulp_ge: "1 \<le> one_ulp" "0 \<le> one_ulp"
  by (simp_all add: one_ulp_def)

text \<open>Rounding a non-negative number of the normal range enlarges it by at most \<open>2\<^sup>-\<^sup>5\<^sup>3\<close> of itself.\<close>

lemma fl_up:
  assumes "r = 0 \<or> min_normal \<le> r"
  shows "fl r \<le> r * one_ulp"
proof (cases "r = 0")
  case True
  then show ?thesis by simp
next
  case False
  with assms have r: "2 powi (- 1022) \<le> r" by (simp add: min_normal_def)
  then have pos: "0 < r" using two_powi_pos [of "- 1022"] by linarith
  then have "2 powi (- 1022) \<le> \<bar>r\<bar>" using r by (simp only: abs_of_pos)
  from fl_rel_error [OF this] pos have "\<bar>fl r - r\<bar> \<le> r / 2 ^ 53" by (simp only: abs_of_pos)
  then have "fl r \<le> r + r / 2 ^ 53" by linarith
  also have "r + r / 2 ^ 53 = r * one_ulp" by (simp add: one_ulp_def algebra_simps)
  finally show ?thesis .
qed

lemma fl_normal:
  assumes "min_normal \<le> r"
  shows "min_normal \<le> fl r"
proof -
  have "fl (of_int 1 * 2 powi (- 1022)) = of_int 1 * 2 powi (- 1022)"
    by (rule fl_dyadic) simp_all
  then have "fl min_normal = min_normal" by (simp only: min_normal_def of_int_1 mult_1)
  with fl_mono [OF assms] show ?thesis by simp
qed

lemma scaled_normal:
  assumes "0 \<le> n" and "min_normal \<le> g"
  shows "rat_of_int n * g = 0 \<or> min_normal \<le> rat_of_int n * g"
proof (cases "n = 0")
  case True
  then show ?thesis by simp
next
  case False
  with assms(1) have "1 \<le> rat_of_int n" by simp
  moreover from assms(2) have "0 \<le> g" using min_normal_pos by linarith
  ultimately have "1 * g \<le> rat_of_int n * g" by (intro mult_right_mono)
  with assms(2) show ?thesis by simp
qed

lemma fl_scaled_up:
  assumes "0 \<le> n" and "min_normal \<le> g"
  shows "fl (rat_of_int n * g) \<le> rat_of_int n * g * one_ulp"
    and "fl (rat_of_int n * g) = 0 \<or> min_normal \<le> fl (rat_of_int n * g)"
    and "0 \<le> fl (rat_of_int n * g)"
proof -
  note n = scaled_normal [OF assms]
  from n show "fl (rat_of_int n * g) \<le> rat_of_int n * g * one_ulp" by (rule fl_up)
  from n show "fl (rat_of_int n * g) = 0 \<or> min_normal \<le> fl (rat_of_int n * g)"
    using fl_normal [of "rat_of_int n * g"] by auto
  from assms(2) have "0 \<le> g" using min_normal_pos by linarith
  with assms(1) show "0 \<le> fl (rat_of_int n * g)" by (intro fl_nonneg) simp
qed

text \<open>
  A number within a sixteenth above an integer up to \<open>2\<^sup>4\<^sup>8\<close> stays below the next
  integer when it is enlarged by two roundings.
\<close>

lemma within_one:
  assumes "x \<le> rat_of_int m + 1 / 16" and "0 \<le> x" and "m \<le> 2 ^ 48"
  shows "x * one_ulp\<^sup>2 < rat_of_int m + 1"
proof -
  have "one_ulp\<^sup>2 \<le> 1 + 1 / 2 ^ 51" by (simp add: one_ulp_def power2_eq_square)
  with assms(2) have "x * one_ulp\<^sup>2 \<le> x * (1 + 1 / 2 ^ 51)" by (intro mult_left_mono)
  also have "\<dots> = x + x / 2 ^ 51" by (simp add: algebra_simps)
  finally have 1: "x * one_ulp\<^sup>2 \<le> x + x / 2 ^ 51" .
  from assms(3) have "rat_of_int m \<le> of_int (2 ^ 48)" by (simp only: of_int_le_iff)
  with assms(1) have "x \<le> 2 ^ 48 + 1 / 16" by simp
  then have "x / 2 ^ 51 \<le> 1 / 2" by simp
  with 1 assms(1) show ?thesis by linarith
qed

section \<open>Scaling to a bound\<close>

text \<open>Scaling by the rounded quotient and rounding the product stays next to \<open>a\<close>.\<close>

lemma product_near:
  assumes "0 < a" and "a < b" and "b \<le> 2 ^ 48"
  shows "\<bar>of_int a - fl (of_int b * fl (of_int a / of_int b))\<bar> \<le> 1 / 16"
proof -
  from assms have a: "0 \<le> a" "a \<le> 2 ^ 48" by simp_all
  note s = scaled_back [OF assms]
  from fl_mono [OF s(1)] fl_near_int(1) [OF a]
  have "fl (of_int b * fl (of_int a / of_int b)) \<le> of_int a + 1 / 16" by simp
  moreover from fl_mono [OF s(2)] fl_near_int(2) [OF a]
  have "of_int a - 1 / 16 \<le> fl (of_int b * fl (of_int a / of_int b))" by simp
  ultimately show ?thesis by linarith
qed

lemma floor_near_int:
  assumes "\<bar>of_int a - x\<bar> \<le> 1 / 16"
  shows "\<lfloor>x :: rat\<rfloor> = a - 1 \<or> \<lfloor>x\<rfloor> = a"
proof -
  from assms have "rat_of_int a - 1 \<le> x" "x < rat_of_int a + 1" by linarith+
  then have "of_int (a - 1) \<le> x" "x < of_int (a + 1)" by simp_all
  then have "a - 1 \<le> \<lfloor>x\<rfloor>" "\<lfloor>x\<rfloor> < a + 1" by (simp_all only: le_floor_iff floor_less_iff)
  then show ?thesis by linarith
qed

text \<open>The size that binds, scaled by its own quotient, is the canvas size or one less.\<close>

lemma scaled_to_canvas:
  assumes "0 < a" and "a < b" and "b \<le> 2 ^ 48"
  shows "js_floor (js_mul (js_int b) (Fin (fl (of_int a / of_int b)))) \<in> {js_int (a - 1), js_int a}"
proof -
  let ?q = "fl (rat_of_int a / of_int b)"
  from assms have b: "0 \<le> b" "b \<le> 2 ^ 53" "b \<le> 2 ^ 49" by simp_all
  note q = quotient_bounds(2,3) [OF assms(1,2) b(3)]
  from q have "?q \<le> 1" by simp
  note m = js_mul_scale(1) [OF b(1,2) q(1) this]
  from floor_near_int [OF product_near [OF assms]] m show ?thesis
    by (auto simp: js_int_def)
qed

end
