(* ===== verification/Layout.thy ===== *)
theory Layout
  imports JS_Rounding JS_String
begin

text \<open>
  The layout engine, \<^verbatim>\<open>generateImage\<close> of \<^verbatim>\<open>src/index.js\<close>: the per-line scale and
  real size (\<^verbatim>\<open>svgs.map\<close>), the total height (\<^verbatim>\<open>reduce\<close>), the global scale with its
  warning, the start offset, and the loop that pushes one overlay per line and advances
  \<^verbatim>\<open>y\<close>. Numbers are the binary64 values of \<open>JS_Number\<close>. The calls into the raster
  library are not run: a resized overlay records the size it is resized to, and the
  result is the list of overlays handed to \<^verbatim>\<open>bg.composite\<close>.

  The lemmas come in two parts. For lines that fit, every number is an integer and the
  result is the plan \<open>unscaled_plan\<close>. For lines that have to shrink, the scale of a
  line, the global scale and the products with them are rounded binary64 values; with
  the rounding lemmas of \<open>JS_Rounding\<close> the theory shows that a line's real size is a
  size in whole pixels within the canvas and within one pixel of the dimension that
  binds, that the tops of the overlays are those of a recursion on
  rationals, and that the overlays lie inside the canvas: horizontally always,
  vertically from \<open>-1\<close> to the canvas height, without overlap.
\<close>

section \<open>Data\<close>

text \<open>What \<^verbatim>\<open>textSvg\<close> returns for a line: \<^verbatim>\<open>{ width, height, svg }\<close>.\<close>

record svg_box =
  width :: js_number
  height :: js_number
  svg :: js_string

text \<open>An element of \<^verbatim>\<open>toDraws\<close>: the box with its scale and real size.\<close>

record to_draw = svg_box +
  scale :: js_number
  realWidth :: js_number
  realHeight :: js_number

text \<open>
  The \<^verbatim>\<open>input\<close> of an overlay: the drawing rasterised at a size
  (\<^verbatim>\<open>sharp(Buffer.from(svg)).resize(w, h).png().toBuffer()\<close>), or the drawing as it is
  (\<^verbatim>\<open>Buffer.from(svg)\<close>).
\<close>

datatype overlay_input = Resized js_string js_number js_number | Raw js_string

record overlay =
  input :: overlay_input
  left :: js_number
  top' :: js_number

text \<open>
  The result: the background and the overlays passed to \<^verbatim>\<open>composite\<close>, and the scale
  printed by \<^verbatim>\<open>console.warn\<close> when the lines are too high.
\<close>

record composite_plan =
  background :: js_string
  composites :: "overlay list"
  warning :: "js_number option"

section \<open>Per-line scale\<close>

text \<open>The body of \<^verbatim>\<open>svgs.map\<close>, for the canvas size \<open>cw\<close> by \<open>ch\<close>.\<close>

definition fit_scale :: "js_number \<Rightarrow> js_number \<Rightarrow> svg_box \<Rightarrow> js_number" where
  "fit_scale cw ch s =
     (let sc = (if js_gt (width s) cw then js_div cw (width s) else js_int 1)
      in if js_gt (height s) ch
         then (let s' = js_div ch (height s) in if js_lt s' sc then s' else sc)
         else sc)"

definition toDraw :: "js_number \<Rightarrow> js_number \<Rightarrow> svg_box \<Rightarrow> to_draw" where
  "toDraw cw ch s =
     (let sc = fit_scale cw ch s
      in \<lparr>width = width s, height = height s, svg = svg s, scale = sc,
          realWidth = js_floor (js_mul (width s) sc),
          realHeight = js_floor (js_mul (height s) sc)\<rparr>)"

section \<open>Total height and global scale\<close>

definition totalHeight :: "js_number \<Rightarrow> to_draw list \<Rightarrow> js_number" where
  "totalHeight lineSpace toDraws =
     foldl (\<lambda>prev cur. js_add (js_add prev (realHeight cur)) lineSpace)
       (js_neg lineSpace) toDraws"

definition globalScale :: "js_number \<Rightarrow> js_number \<Rightarrow> js_number" where
  "globalScale ch tot = (if js_gt tot ch then js_div ch tot else js_int 1)"

definition start_y :: "js_number \<Rightarrow> js_number \<Rightarrow> js_number \<Rightarrow> js_number" where
  "start_y ch tot g = js_floor (js_div (js_sub ch (js_mul tot g)) (js_int 2))"

section \<open>Placing the lines\<close>

text \<open>
  The overlay pushed for a line when \<^verbatim>\<open>y\<close> has the value \<open>y\<close>: rasterised at its
  resized size when the line's scale or the global scale is not 1, the drawing itself
  otherwise.
\<close>

definition overlay_of :: "js_number \<Rightarrow> js_number \<Rightarrow> js_number \<Rightarrow> to_draw \<Rightarrow> overlay" where
  "overlay_of cw g y conf =
     (if js_strict_neq (scale conf) (js_int 1) \<or> js_strict_neq g (js_int 1)
      then (let resizeWidth = js_floor (js_mul (realWidth conf) g);
                resizeHeight = js_floor (js_mul (realHeight conf) g)
            in \<lparr>input = Resized (svg conf) resizeWidth resizeHeight,
                left = js_floor (js_div (js_sub cw (js_mul (realWidth conf) g)) (js_int 2)),
                top' = y\<rparr>)
      else \<lparr>input = Raw (svg conf),
            left = js_floor (js_div (js_sub cw (realWidth conf)) (js_int 2)),
            top' = y\<rparr>)"

text \<open>The amount \<^verbatim>\<open>y\<close> is advanced by after a line.\<close>

definition advance :: "js_number \<Rightarrow> js_number \<Rightarrow> to_draw \<Rightarrow> js_number" where
  "advance lineSpace g conf =
     js_floor (js_add (js_mul lineSpace g) (js_mul (realHeight conf) g))"

text \<open>
  One round of the \<^verbatim>\<open>for\<close> loop over \<^verbatim>\<open>toDraws\<close>; the state is \<^verbatim>\<open>y\<close> and the
  \<^verbatim>\<open>composites\<close> pushed so far.
\<close>

definition place_line ::
  "js_number \<Rightarrow> js_number \<Rightarrow> js_number \<Rightarrow> js_number \<times> overlay list \<Rightarrow> to_draw
    \<Rightarrow> js_number \<times> overlay list" where
  "place_line cw lineSpace g st conf =
     (js_add (fst st) (advance lineSpace g conf), snd st @ [overlay_of cw g (fst st) conf])"

definition generateImage ::
  "js_string \<Rightarrow> js_number \<Rightarrow> js_number \<Rightarrow> svg_box list \<Rightarrow> js_number option
    \<Rightarrow> composite_plan" where
  "generateImage bg cw ch svgs lineSpace_arg =
     (let lineSpace = (case lineSpace_arg of None \<Rightarrow> js_int 16 | Some l \<Rightarrow> l);
          toDraws = map (toDraw cw ch) svgs;
          tot = totalHeight lineSpace toDraws;
          g = globalScale ch tot;
          y = start_y ch tot g;
          st = foldl (place_line cw lineSpace g) (y, []) toDraws
      in \<lparr>background = bg, composites = snd st,
          warning = (if js_gt tot ch then Some g else None)\<rparr>)"

section \<open>The placing loop as a recursion\<close>

text \<open>
  What the loop pushes, as a function of the start value of \<^verbatim>\<open>y\<close>: the specification
  the loop is proved against.
\<close>

fun place_all ::
  "js_number \<Rightarrow> js_number \<Rightarrow> js_number \<Rightarrow> js_number \<Rightarrow> to_draw list \<Rightarrow> overlay list" where
  "place_all cw lineSpace g y [] = []"
| "place_all cw lineSpace g y (conf # confs) =
     overlay_of cw g y conf # place_all cw lineSpace g (js_add y (advance lineSpace g conf)) confs"

text \<open>The drawing an overlay shows, rasterised or not.\<close>

fun drawing :: "overlay_input \<Rightarrow> js_string" where
  "drawing (Resized s w h) = s"
| "drawing (Raw s) = s"

section \<open>The layout of lines that fit\<close>

text \<open>
  The layout the engine promises when nothing has to shrink, on integers: a line is
  its width, height and drawing; the block of lines is as high as the lines and the
  spaces between them; the lines are stacked from the top margin
  \<open>(ch - block) div 2\<close>, each centred on its own.
\<close>

type_synonym int_line = "int \<times> int \<times> js_string"

definition int_box :: "int_line \<Rightarrow> svg_box" where
  "int_box = (\<lambda>(w, h, s). \<lparr>width = js_int w, height = js_int h, svg = s\<rparr>)"

definition int_draw :: "int_line \<Rightarrow> to_draw" where
  "int_draw = (\<lambda>(w, h, s). \<lparr>width = js_int w, height = js_int h, svg = s, scale = js_int 1,
     realWidth = js_int w, realHeight = js_int h\<rparr>)"

definition line_height :: "int_line \<Rightarrow> int" where
  "line_height = (\<lambda>(w, h, s). h)"

definition block_height :: "int \<Rightarrow> int list \<Rightarrow> int" where
  "block_height ls hs = sum_list hs + ls * (int (length hs) - 1)"

definition spaced :: "int \<Rightarrow> int list \<Rightarrow> int" where
  "spaced ls hs = sum_list (map (\<lambda>h. h + ls) hs)"

fun stack_tops :: "int \<Rightarrow> int \<Rightarrow> int list \<Rightarrow> int list" where
  "stack_tops y ls [] = []"
| "stack_tops y ls (h # hs) = y # stack_tops (y + (ls + h)) ls hs"

definition int_overlay :: "int \<Rightarrow> int_line \<Rightarrow> int \<Rightarrow> overlay" where
  "int_overlay cw = (\<lambda>(w, h, s) y. \<lparr>input = Raw s, left = js_int ((cw - w) div 2), top' = js_int y\<rparr>)"

definition unscaled_plan :: "js_string \<Rightarrow> int \<Rightarrow> int \<Rightarrow> int_line list \<Rightarrow> int \<Rightarrow> composite_plan" where
  "unscaled_plan bg cw ch bs ls =
     (let hs = map line_height bs
      in \<lparr>background = bg,
          composites = map2 (int_overlay cw) bs (stack_tops ((ch - block_height ls hs) div 2) ls hs),
          warning = None\<rparr>)"

text \<open>
  The lines fit: sizes are not negative, no line is wider or higher than the canvas, the
  block is not higher than the canvas, and all numbers are small enough for the
  arithmetic on them to be exact.
\<close>

definition sized :: "int \<Rightarrow> int \<Rightarrow> int_line \<Rightarrow> bool" where
  "sized cw ch = (\<lambda>(w, h, s). 0 \<le> w \<and> w \<le> cw \<and> 0 \<le> h \<and> h \<le> ch)"

definition fits :: "int \<Rightarrow> int \<Rightarrow> int_line list \<Rightarrow> int \<Rightarrow> bool" where
  "fits cw ch bs ls \<longleftrightarrow>
     0 \<le> ls \<and> ls \<le> 2 ^ 50 \<and> cw \<le> 2 ^ 50 \<and> ch \<le> 2 ^ 50 \<and>
     list_all (sized cw ch) bs \<and>
     block_height ls (map line_height bs) \<le> ch"

text \<open>The top of line \<open>i\<close> of the lines that fit.\<close>

definition top_of :: "int \<Rightarrow> int \<Rightarrow> int list \<Rightarrow> nat \<Rightarrow> int" where
  "top_of ch ls hs i = (ch - block_height ls hs) div 2 + spaced ls (take i hs)"

section \<open>Lines of integer size\<close>

text \<open>The integer a number is, when it is one.\<close>

definition as_int :: "js_number \<Rightarrow> int option" where
  "as_int x = (case x of Fin r \<Rightarrow> if of_int \<lfloor>r\<rfloor> = r then Some \<lfloor>r\<rfloor> else None | _ \<Rightarrow> None)"

text \<open>A line whose drawing has a positive width and height of at most \<open>2\<^sup>4\<^sup>8\<close> pixels.\<close>

definition positive_line :: "int_line \<Rightarrow> bool" where
  "positive_line = (\<lambda>(w, h, s). 0 < w \<and> w \<le> 2 ^ 48 \<and> 0 < h \<and> h \<le> 2 ^ 48)"

text \<open>
  What \<^verbatim>\<open>svgs.map\<close> promises of an element of \<^verbatim>\<open>toDraws\<close>: the scale is in \<open>(0, 1]\<close>,
  the real size is a size in whole pixels within \<open>cw\<close> by \<open>ch\<close>, and a scale of 1 leaves
  the size as it is.
\<close>

definition draw_within :: "int \<Rightarrow> int \<Rightarrow> to_draw \<Rightarrow> bool" where
  "draw_within cw ch d \<longleftrightarrow>
     (case (scale d, as_int (realWidth d), as_int (realHeight d)) of
        (Fin q, Some rw, Some rh) \<Rightarrow>
          0 < q \<and> q \<le> 1 \<and> 0 \<le> rw \<and> rw \<le> cw \<and> 0 \<le> rh \<and> rh \<le> ch
          \<and> (q = 1 \<longrightarrow> width d = realWidth d \<and> height d = realHeight d)
      | _ \<Rightarrow> False)"

definition real_heights :: "to_draw list \<Rightarrow> int list" where
  "real_heights ds = map (\<lambda>d. the (as_int (realHeight d))) ds"

section \<open>The scaled layout on rationals\<close>

text \<open>
  The global scale \<^verbatim>\<open>totalHeight > height ? height / totalHeight : 1\<close> and the start
  offset \<^verbatim>\<open>Math.floor((height - totalHeight * globalScale) / 2)\<close> for an integer
  canvas height \<open>ch\<close> and total height \<open>t\<close>; a size and the advance of \<^verbatim>\<open>y\<close> under the
  global scale \<open>g\<close>; the tops the loop assigns and the bottom of the last line.
\<close>

definition global_scale :: "int \<Rightarrow> int \<Rightarrow> rat" where
  "global_scale ch t = (if ch < t then fl (of_int ch / of_int t) else 1)"

definition scaled_start :: "int \<Rightarrow> int \<Rightarrow> rat \<Rightarrow> int" where
  "scaled_start ch t g = \<lfloor>(of_int ch - fl (of_int t * g)) / 2\<rfloor>"

definition scaled_size :: "rat \<Rightarrow> int \<Rightarrow> int" where
  "scaled_size g n = \<lfloor>fl (of_int n * g)\<rfloor>"

definition scaled_advance :: "int \<Rightarrow> rat \<Rightarrow> int \<Rightarrow> int" where
  "scaled_advance ls g h = \<lfloor>fl (fl (of_int ls * g) + fl (of_int h * g))\<rfloor>"

fun scaled_tops :: "int \<Rightarrow> int \<Rightarrow> rat \<Rightarrow> int list \<Rightarrow> int list" where
  "scaled_tops y ls g [] = []"
| "scaled_tops y ls g (h # hs) = y # scaled_tops (y + scaled_advance ls g h) ls g hs"

fun scaled_bottom :: "int \<Rightarrow> int \<Rightarrow> rat \<Rightarrow> int list \<Rightarrow> int" where
  "scaled_bottom y ls g [] = y"
| "scaled_bottom y ls g [h] = y + scaled_size g h"
| "scaled_bottom y ls g (h # h' # hs) = scaled_bottom (y + scaled_advance ls g h) ls g (h' # hs)"

section \<open>The extent of an overlay\<close>

text \<open>
  The width and height an overlay is drawn with: the size it is resized to, or the
  size \<open>w\<close>, \<open>h\<close> of the drawing when it is passed as it is.
\<close>

definition shown_width :: "js_number \<Rightarrow> overlay \<Rightarrow> js_number" where
  "shown_width w c = (case input c of Resized s rw rh \<Rightarrow> rw | Raw s \<Rightarrow> w)"

definition shown_height :: "js_number \<Rightarrow> overlay \<Rightarrow> js_number" where
  "shown_height h c = (case input c of Resized s rw rh \<Rightarrow> rh | Raw s \<Rightarrow> h)"

text \<open>
  Horizontally inside a canvas \<open>cw\<close> wide: \<open>left\<close> and the width are integers that are
  not negative, and the margin on the left is not larger than the one on the right.
\<close>

definition inside_h :: "int \<Rightarrow> js_number \<Rightarrow> overlay \<Rightarrow> bool" where
  "inside_h cw w c \<longleftrightarrow>
     (case (as_int (left c), as_int (shown_width w c)) of
        (Some l, Some n) \<Rightarrow> 0 \<le> l \<and> 0 \<le> n \<and> 2 * l + n \<le> cw
      | _ \<Rightarrow> False)"

text \<open>
  Stacked between \<open>lo\<close> and \<open>hi\<close>: tops and heights are integers, every overlay starts
  at or below the end of the one before it (the first at or below \<open>lo\<close>), and the last
  ends at or above \<open>hi\<close>. The list pairs each overlay with the height of its drawing.
\<close>

fun stacked :: "int \<Rightarrow> int \<Rightarrow> (js_number \<times> overlay) list \<Rightarrow> bool" where
  "stacked lo hi [] \<longleftrightarrow> lo \<le> hi"
| "stacked lo hi ((h, c) # r) \<longleftrightarrow>
     (case (as_int (top' c), as_int (shown_height h c)) of
        (Some t, Some n) \<Rightarrow> lo \<le> t \<and> 0 \<le> n \<and> stacked (t + n) hi r
      | _ \<Rightarrow> False)"

lemmas layout_defs [xibao_defs] =
  fit_scale_def toDraw_def totalHeight_def globalScale_def start_y_def overlay_of_def
  advance_def place_line_def generateImage_def

section \<open>The loop and its specification\<close>

lemma foldl_place_line:
  "snd (foldl (place_line cw ls g) (y, acc) ds) = acc @ place_all cw ls g y ds"
  by (induction ds arbitrary: y acc) (simp_all add: place_line_def)

lemma generateImage_composites:
  "composites (generateImage bg cw ch svgs l) =
     (let lineSpace = (case l of None \<Rightarrow> js_int 16 | Some l \<Rightarrow> l);
          toDraws = map (toDraw cw ch) svgs;
          tot = totalHeight lineSpace toDraws;
          g = globalScale ch tot
      in place_all cw lineSpace g (start_y ch tot g) toDraws)"
  using foldl_place_line [where acc = "[]"] by (simp add: generateImage_def Let_def)

lemma length_place_all [simp]: "length (place_all cw ls g y ds) = length ds"
  by (induction ds arbitrary: y) simp_all

lemma drawing_overlay_of [simp]: "drawing (input (overlay_of cw g y conf)) = svg conf"
  by (simp add: overlay_of_def Let_def)

lemma top_overlay_of [simp]: "top' (overlay_of cw g y conf) = y"
  by (simp add: overlay_of_def Let_def)

lemma drawing_place_all: "map (\<lambda>c. drawing (input c)) (place_all cw ls g y ds) = map svg ds"
  by (induction ds arbitrary: y) simp_all

lemma svg_toDraw [simp]: "svg (toDraw cw ch s) = svg s"
  by (simp add: toDraw_def Let_def)

lemma generateImage_Nil:
  "generateImage bg cw ch [] l =
     \<lparr>background = bg, composites = [],
      warning = (let t = js_neg (case l of None \<Rightarrow> js_int 16 | Some l \<Rightarrow> l)
                 in if js_gt t ch then Some (js_div ch t) else None)\<rparr>"
  by (simp add: generateImage_def totalHeight_def globalScale_def Let_def)

section \<open>Lines that fit: every step is exact\<close>

lemma toDraw_int:
  assumes "0 \<le> w" "w \<le> cw" "0 \<le> h" "h \<le> ch" "cw \<le> 2 ^ 50" "ch \<le> 2 ^ 50"
  shows "toDraw (js_int cw) (js_int ch) (int_box (w, h, s)) = int_draw (w, h, s)"
  using assms by (simp add: toDraw_def fit_scale_def int_box_def int_draw_def js_mul_one)

lemma sizedD:
  "sized cw ch b \<Longrightarrow> 0 \<le> line_height b \<and> line_height b \<le> ch"
  by (auto simp: sized_def line_height_def)

lemma map_toDraw_int:
  assumes "list_all (sized cw ch) bs" "cw \<le> 2 ^ 50" "ch \<le> 2 ^ 50"
  shows "map (toDraw (js_int cw) (js_int ch)) (map int_box bs) = map int_draw bs"
  using assms by (induction bs) (auto simp: sized_def toDraw_int)

lemma realHeight_int_draw [simp]: "realHeight (int_draw b) = js_int (line_height b)"
  by (simp add: int_draw_def line_height_def split: prod.split)

lemma spaced_simps [simp]: "spaced ls [] = 0" "spaced ls (h # hs) = h + ls + spaced ls hs"
  by (simp_all add: spaced_def)

lemma spaced_nonneg: "0 \<le> ls \<Longrightarrow> list_all (\<lambda>h. 0 \<le> h) hs \<Longrightarrow> 0 \<le> spaced ls hs"
  by (induction hs) simp_all

lemma block_height_Cons: "block_height ls (h # hs) = h + spaced ls hs"
  by (induction hs) (simp_all add: block_height_def algebra_simps)

lemma foldl_height_int:
  assumes "0 \<le> ls" "list_all (\<lambda>h. 0 \<le> h) (map line_height bs)" "0 \<le> p"
    "p + spaced ls (map line_height bs) \<le> 2 ^ 52"
  shows "foldl (\<lambda>prev cur. js_add (js_add prev (realHeight cur)) (js_int ls)) (js_int p)
           (map int_draw bs) = js_int (p + spaced ls (map line_height bs))"
  using assms
proof (induction bs arbitrary: p)
  case Nil
  then show ?case by simp
next
  case (Cons b bs)
  let ?h = "line_height b"
  from Cons.prems have h: "0 \<le> ?h" and nn: "0 \<le> spaced ls (map line_height bs)"
    by (simp_all add: spaced_nonneg)
  with Cons.prems have "js_add (js_add (js_int p) (js_int ?h)) (js_int ls) = js_int (p + ?h + ls)"
    by (simp add: js_add_int)
  moreover from Cons.prems h nn have
    "foldl (\<lambda>prev cur. js_add (js_add prev (realHeight cur)) (js_int ls)) (js_int (p + ?h + ls))
       (map int_draw bs) = js_int (p + ?h + ls + spaced ls (map line_height bs))"
    by (intro Cons.IH) (simp_all add: algebra_simps)
  ultimately show ?case by (simp add: algebra_simps)
qed

lemma list_all_heights:
  "list_all (sized cw ch) bs \<Longrightarrow> list_all (\<lambda>h. 0 \<le> h) (map line_height bs)"
  by (induction bs) (auto dest: sizedD)

lemma totalHeight_int:
  assumes "0 \<le> ls" "ls \<le> 2 ^ 50" "ch \<le> 2 ^ 50" "list_all (sized cw ch) bs" "bs \<noteq> []"
    "block_height ls (map line_height bs) \<le> ch"
  shows "totalHeight (js_int ls) (map int_draw bs) = js_int (block_height ls (map line_height bs))"
proof -
  from assms(5) obtain b bs' where bs: "bs = b # bs'" by (cases bs) auto
  let ?h = "line_height b"
  from assms(4) bs have h: "0 \<le> ?h" "?h \<le> ch" and all: "list_all (\<lambda>h. 0 \<le> h) (map line_height bs')"
    by (auto dest: sizedD list_all_heights)
  from assms h have "js_add (js_add (js_neg (js_int ls)) (js_int ?h)) (js_int ls) = js_int ?h"
    by (intro js_add_neg_start) simp_all
  moreover from assms bs h all have
    "foldl (\<lambda>prev cur. js_add (js_add prev (realHeight cur)) (js_int ls)) (js_int ?h)
       (map int_draw bs') = js_int (?h + spaced ls (map line_height bs'))"
    by (intro foldl_height_int) (simp_all add: block_height_Cons)
  ultimately show ?thesis by (simp add: bs totalHeight_def block_height_Cons)
qed

lemma overlay_of_int:
  assumes "sized cw ch b" "cw \<le> 2 ^ 50"
  shows "overlay_of (js_int cw) (js_int 1) (js_int y) (int_draw b) = int_overlay cw b y"
  using assms
  by (cases b) (simp add: overlay_of_def int_draw_def int_overlay_def sized_def js_sub_int
      js_floor_half_int)

lemma advance_int:
  assumes "sized cw ch b" "0 \<le> ls" "ls \<le> 2 ^ 50" "ch \<le> 2 ^ 50"
  shows "advance (js_int ls) (js_int 1) (int_draw b) = js_int (ls + line_height b)"
  using assms sizedD [OF assms(1)]
  by (simp add: advance_def js_mul_one js_add_int)

lemma place_all_int:
  assumes "list_all (sized cw ch) bs" "0 \<le> ls" "ls \<le> 2 ^ 50" "cw \<le> 2 ^ 50" "ch \<le> 2 ^ 50"
    "0 \<le> y" "y + spaced ls (map line_height bs) \<le> 2 ^ 52"
  shows "place_all (js_int cw) (js_int ls) (js_int 1) (js_int y) (map int_draw bs) =
         map2 (int_overlay cw) bs (stack_tops y ls (map line_height bs))"
  using assms
proof (induction bs arbitrary: y)
  case Nil
  then show ?case by simp
next
  case (Cons b bs)
  let ?h = "line_height b"
  from Cons.prems have b: "sized cw ch b" and h: "0 \<le> ?h"
    and nn: "0 \<le> spaced ls (map line_height bs)"
    by (auto dest: sizedD list_all_heights simp: spaced_nonneg)
  from Cons.prems h nn have
    "js_add (js_int y) (advance (js_int ls) (js_int 1) (int_draw b)) = js_int (y + (ls + ?h))"
    by (simp add: advance_int [OF b] js_add_int)
  moreover from Cons.prems h nn have
    "place_all (js_int cw) (js_int ls) (js_int 1) (js_int (y + (ls + ?h))) (map int_draw bs) =
       map2 (int_overlay cw) bs (stack_tops (y + (ls + ?h)) ls (map line_height bs))"
    by (intro Cons.IH) (simp_all add: algebra_simps)
  ultimately show ?case using Cons.prems by (simp add: overlay_of_int [OF b])
qed

lemma start_y_int:
  assumes "0 \<le> t" "t \<le> ch" "ch \<le> 2 ^ 50"
  shows "start_y (js_int ch) (js_int t) (js_int 1) = js_int ((ch - t) div 2)"
  using assms by (simp add: start_y_def js_mul_one js_sub_int js_floor_half_int)

lemma generateImage_unscaled:
  assumes "fits cw ch bs ls"
  shows "generateImage bg (js_int cw) (js_int ch) (map int_box bs) (Some (js_int ls)) =
         unscaled_plan bg cw ch bs ls"
proof (cases "bs = []")
  case True
  with assms show ?thesis
    by (simp add: generateImage_Nil unscaled_plan_def fits_def block_height_def js_gt_neg_int)
next
  case False
  let ?hs = "map line_height bs" and ?t = "block_height ls (map line_height bs)"
  from assms have f: "0 \<le> ls" "ls \<le> 2 ^ 50" "cw \<le> 2 ^ 50" "ch \<le> 2 ^ 50"
    "list_all (sized cw ch) bs" "?t \<le> ch"
    by (simp_all add: fits_def)
  from False obtain b bs' where bs: "bs = b # bs'" by (cases bs) auto
  with f have "0 \<le> line_height b" and "list_all (\<lambda>h. 0 \<le> h) (map line_height bs')"
    by (auto dest: sizedD list_all_heights)
  with f bs have sp: "?t + ls = spaced ls ?hs" and t: "0 \<le> ?t"
    using spaced_nonneg [of ls "map line_height bs'"] by (simp_all add: block_height_Cons)
  have draws: "map (toDraw (js_int cw) (js_int ch)) (map int_box bs) = map int_draw bs"
    using f by (intro map_toDraw_int)
  have tot: "totalHeight (js_int ls) (map int_draw bs) = js_int ?t"
    using f False by (intro totalHeight_int)
  have y: "start_y (js_int ch) (js_int ?t) (js_int 1) = js_int ((ch - ?t) div 2)"
    using t f by (intro start_y_int)
  have "place_all (js_int cw) (js_int ls) (js_int 1) (js_int ((ch - ?t) div 2)) (map int_draw bs)
      = map2 (int_overlay cw) bs (stack_tops ((ch - ?t) div 2) ls ?hs)"
    using f t sp by (intro place_all_int [where ch = ch]) simp_all
  with f draws tot y show ?thesis
    using foldl_place_line [where acc = "[]"]
    by (simp add: generateImage_def unscaled_plan_def globalScale_def Let_def del: map_map)
qed

section \<open>The positions of lines that fit\<close>

lemma length_stack_tops [simp]: "length (stack_tops y ls hs) = length hs"
  by (induction hs arbitrary: y) simp_all

lemma nth_stack_tops: "i < length hs \<Longrightarrow> stack_tops y ls hs ! i = y + spaced ls (take i hs)"
proof (induction hs arbitrary: y i)
  case Nil
  then show ?case by simp
next
  case (Cons h hs)
  then show ?case by (cases i) (simp_all add: algebra_simps)
qed

lemma block_height_spaced: "block_height ls hs = spaced ls hs - ls"
  by (induction hs) (simp_all add: block_height_def algebra_simps)

lemma spaced_append [simp]: "spaced ls (xs @ ys) = spaced ls xs + spaced ls ys"
  by (simp add: spaced_def)

lemma spaced_take_Suc:
  "i < length hs \<Longrightarrow> spaced ls (take (Suc i) hs) = spaced ls (take i hs) + (hs ! i + ls)"
  by (simp add: take_Suc_conv_app_nth)

lemma spaced_take_le:
  assumes "0 \<le> ls" "list_all (\<lambda>h. 0 \<le> h) hs"
  shows "spaced ls (take n hs) \<le> spaced ls hs"
proof -
  from assms(2) have "list_all (\<lambda>h. 0 \<le> h) (drop n hs)" by (rule list_all_drop)
  with assms(1) have "0 \<le> spaced ls (drop n hs)" by (rule spaced_nonneg)
  moreover have "spaced ls hs = spaced ls (take n hs) + spaced ls (drop n hs)"
    by (simp flip: spaced_append)
  ultimately show ?thesis by simp
qed

lemma nth_unscaled_plan:
  assumes "i < length bs"
  shows "composites (unscaled_plan bg cw ch bs ls) ! i =
         int_overlay cw (bs ! i) (top_of ch ls (map line_height bs) i)"
  using assms by (simp add: unscaled_plan_def Let_def nth_stack_tops top_of_def)

lemma top_of_bounds:
  assumes "fits cw ch bs ls" "i < length bs"
  shows "0 \<le> top_of ch ls (map line_height bs) i"
    and "top_of ch ls (map line_height bs) i + line_height (bs ! i) \<le> ch"
proof -
  let ?hs = "map line_height bs"
  from assms(1) have f: "0 \<le> ls" "list_all (\<lambda>h. 0 \<le> h) ?hs" "block_height ls ?hs \<le> ch"
    by (auto simp: fits_def dest: list_all_heights)
  then have "0 \<le> spaced ls (take i ?hs)"
    by (intro spaced_nonneg list_all_take)
  with f show "0 \<le> top_of ch ls ?hs i" by (simp add: top_of_def)
  from f have "spaced ls (take (Suc i) ?hs) \<le> spaced ls ?hs" by (intro spaced_take_le)
  with assms(2) have "spaced ls (take i ?hs) + line_height (bs ! i) \<le> block_height ls ?hs"
    by (simp add: spaced_take_Suc block_height_spaced)
  with f show "top_of ch ls ?hs i + line_height (bs ! i) \<le> ch"
    by (simp add: top_of_def)
qed

lemma top_int_overlay [simp]: "top' (int_overlay cw b y) = js_int y"
  by (simp add: int_overlay_def split: prod.split)

lemma tops_unscaled_plan:
  "map top' (composites (unscaled_plan bg cw ch bs ls)) =
   map js_int (stack_tops ((ch - block_height ls (map line_height bs)) div 2) ls
     (map line_height bs))"
  by (rule nth_equalityI) (simp_all add: unscaled_plan_def Let_def)

section \<open>The scale and the real size of a line\<close>

lemma scaled_le_sixteenth:
  fixes q :: rat and n :: int
  assumes "q \<le> 1" and "0 < n"
  shows "of_int n * q \<le> of_int n + 1 / 16"
proof -
  from assms have "of_int n * q \<le> of_int n * 1" by (intro mult_left_mono) simp_all
  then show ?thesis by simp
qed

lemma scaled_mono_sixteenth:
  fixes q q' :: rat and n m :: int
  assumes "q \<le> q'" and "of_int n * q' \<le> of_int m + 1 / 16" and "0 < n"
  shows "of_int n * q \<le> of_int m + 1 / 16"
proof -
  from assms have "of_int n * q \<le> of_int n * q'" by (intro mult_left_mono) simp_all
  with assms show ?thesis by linarith
qed

text \<open>The scale of a line of integer size, with what the proofs on the real size need.\<close>

lemma fit_scale_int:
  assumes "0 < w" "0 < h" "0 < cw" "0 < ch" "w \<le> 2 ^ 48" "h \<le> 2 ^ 48"
  shows "\<exists>q. fit_scale (js_int cw) (js_int ch) (int_box (w, h, s)) = Fin q \<and> 0 < q \<and> q \<le> 1
           \<and> (q = 1 \<longleftrightarrow> w \<le> cw \<and> h \<le> ch)
           \<and> of_int w * q \<le> of_int (min w cw) + 1 / 16
           \<and> of_int h * q \<le> of_int (min h ch) + 1 / 16"
proof -
  let ?qw = "fl (rat_of_int cw / of_int w)" and ?qh = "fl (rat_of_int ch / of_int h)"
  have w: "js_div (js_int cw) (js_int w) = Fin ?qw" "0 < ?qw" "?qw < 1"
    "of_int w * ?qw \<le> of_int cw + 1 / 16" if "cw < w"
    using that assms quotient_bounds(1-3) [of cw w] scaled_back(1) [of cw w] by simp_all
  have h: "js_div (js_int ch) (js_int h) = Fin ?qh" "0 < ?qh" "?qh < 1"
    "of_int h * ?qh \<le> of_int ch + 1 / 16" if "ch < h"
    using that assms quotient_bounds(1-3) [of ch h] scaled_back(1) [of ch h] by simp_all
  note le = scaled_le_sixteenth and mono = scaled_mono_sixteenth
  consider "w \<le> cw" "h \<le> ch" | "cw < w" "h \<le> ch" | "w \<le> cw" "ch < h" | "cw < w" "ch < h"
    by linarith
  then show ?thesis
  proof cases
    case 1
    with assms show ?thesis by (simp add: fit_scale_def int_box_def js_int_def [of 1])
  next
    case 2
    with assms w [OF 2(1)] le [of ?qw h] show ?thesis
      by (simp add: fit_scale_def int_box_def min_def)
  next
    case 3
    with assms h [OF 3(2)] le [of ?qh w] show ?thesis
      by (simp add: fit_scale_def int_box_def min_def js_lt_def js_int_def [of 1])
  next
    case 4
    note w = w [OF 4(1)] and h = h [OF 4(2)]
    show ?thesis
    proof (cases "?qh < ?qw")
      case True
      with 4 assms w h mono [of ?qh ?qw w cw] show ?thesis
        by (simp add: fit_scale_def int_box_def min_def js_lt_def)
    next
      case False
      with 4 assms w h mono [of ?qw ?qh h ch] show ?thesis
        by (simp add: fit_scale_def int_box_def min_def js_lt_def)
    qed
  qed
qed

lemma as_int_js_int [simp]: "as_int (js_int n) = Some n"
  by (simp add: as_int_def js_int_def)

lemma as_int_Some_iff: "as_int x = Some n \<longleftrightarrow> x = js_int n"
  by (auto simp: as_int_def js_int_def split: js_number.splits if_splits)

lemma draw_within_iff:
  "draw_within cw ch d \<longleftrightarrow>
     (\<exists>q rw rh. scale d = Fin q \<and> realWidth d = js_int rw \<and> realHeight d = js_int rh
        \<and> 0 < q \<and> q \<le> 1 \<and> 0 \<le> rw \<and> rw \<le> cw \<and> 0 \<le> rh \<and> rh \<le> ch
        \<and> (q = 1 \<longrightarrow> width d = js_int rw \<and> height d = js_int rh))"
  by (auto simp: draw_within_def as_int_Some_iff split: js_number.splits option.splits)

lemma inside_h_iff:
  "inside_h cw w c \<longleftrightarrow>
     (\<exists>l n. left c = js_int l \<and> shown_width w c = js_int n \<and> 0 \<le> l \<and> 0 \<le> n \<and> 2 * l + n \<le> cw)"
  by (auto simp: inside_h_def as_int_Some_iff split: option.splits)

lemma real_heights_simps [simp]:
  "real_heights [] = []"
  "real_heights (d # ds) = the (as_int (realHeight d)) # real_heights ds"
  by (simp_all add: real_heights_def)

lemma draw_within_mono:
  "draw_within cw ch d \<Longrightarrow> cw \<le> cw' \<Longrightarrow> ch \<le> ch' \<Longrightarrow> draw_within cw' ch' d"
  by (fastforce simp: draw_within_iff)

lemma draw_within_height:
  assumes "draw_within cw ch d"
  shows "realHeight d = js_int (the (as_int (realHeight d)))"
    and "0 \<le> the (as_int (realHeight d))" and "the (as_int (realHeight d)) \<le> ch"
  using assms by (auto simp: draw_within_iff)

text \<open>The scale of a line that does not fit is the quotient of the dimension that binds.\<close>

lemma fit_scale_binding:
  assumes "0 < w" "0 < h" "0 < cw" "0 < ch" "w \<le> 2 ^ 48" "h \<le> 2 ^ 48"
  shows "cw < w \<Longrightarrow> h * cw \<le> ch * w \<Longrightarrow>
           fit_scale (js_int cw) (js_int ch) (int_box (w, h, s)) = Fin (fl (of_int cw / of_int w))"
    and "ch < h \<Longrightarrow> w * ch \<le> cw * h \<Longrightarrow>
           fit_scale (js_int cw) (js_int ch) (int_box (w, h, s)) = Fin (fl (of_int ch / of_int h))"
proof -
  let ?qw = "fl (rat_of_int cw / of_int w)" and ?qh = "fl (rat_of_int ch / of_int h)"
  have w: "js_div (js_int cw) (js_int w) = Fin ?qw" "?qw < 1" if "cw < w"
    using that assms quotient_bounds(1,3) [of cw w] by simp_all
  have h: "js_div (js_int ch) (js_int h) = Fin ?qh" "?qh < 1" if "ch < h"
    using that assms quotient_bounds(1,3) [of ch h] by simp_all
  have le: "rat_of_int a / of_int b \<le> of_int c / of_int d" if "a * d \<le> c * b" "0 < b" "0 < d"
    for a b c d :: int
  proof -
    from that(1) have "rat_of_int (a * d) \<le> of_int (c * b)" by (simp only: of_int_le_iff)
    with that(2,3) show ?thesis by (simp add: field_simps)
  qed
  show "fit_scale (js_int cw) (js_int ch) (int_box (w, h, s)) = Fin ?qw"
    if "cw < w" "h * cw \<le> ch * w"
  proof -
    from that(2) assms have "rat_of_int cw / of_int w \<le> of_int ch / of_int h"
      by (intro le) (simp_all add: mult.commute)
    then have "?qw \<le> ?qh" by (rule fl_mono)
    with that(1) w h show ?thesis
      by (cases "ch < h") (simp_all add: fit_scale_def int_box_def js_lt_def)
  qed
  show "fit_scale (js_int cw) (js_int ch) (int_box (w, h, s)) = Fin ?qh"
    if "ch < h" "w * ch \<le> cw * h"
  proof -
    from that(2) assms have "rat_of_int ch / of_int h \<le> of_int cw / of_int w"
      by (intro le) (simp_all add: mult.commute)
    then have "?qh \<le> ?qw" by (rule fl_mono)
    with that(1) w h show ?thesis
      by (cases "cw < w") (auto simp: fit_scale_def int_box_def js_lt_def js_int_def [of 1])
  qed
qed

lemma toDraw_within_min:
  assumes "0 < w" "0 < h" "0 < cw" "0 < ch" "w \<le> 2 ^ 48" "h \<le> 2 ^ 48"
  shows "draw_within (min w cw) (min h ch) (toDraw (js_int cw) (js_int ch) (int_box (w, h, s)))"
proof -
  from fit_scale_int [OF assms, of s] obtain q where
    q: "fit_scale (js_int cw) (js_int ch) (int_box (w, h, s)) = Fin q" "0 < q" "q \<le> 1"
      "q = 1 \<longleftrightarrow> w \<le> cw \<and> h \<le> ch"
      "of_int w * q \<le> of_int (min w cw) + 1 / 16" "of_int h * q \<le> of_int (min h ch) + 1 / 16"
    by blast
  from assms have m: "0 \<le> min w cw" "min w cw \<le> 2 ^ 48" "0 \<le> min h ch" "min h ch \<le> 2 ^ 48"
    by simp_all
  from mul_floor_upper [OF assms(1) q(2) q(5) m(1,2)] obtain rw where
    rw: "js_floor (js_mul (js_int w) (Fin q)) = js_int rw" "0 \<le> rw" "rw \<le> min w cw" by blast
  from mul_floor_upper [OF assms(2) q(2) q(6) m(3,4)] obtain rh where
    rh: "js_floor (js_mul (js_int h) (Fin q)) = js_int rh" "0 \<le> rh" "rh \<le> min h ch" by blast
  have "Fin 1 = js_int 1" by (simp add: js_int_def)
  with rw(1) rh(1) assms have one: "rw = w \<and> rh = h" if "q = 1"
    using that js_mul_one [of w] js_mul_one [of h] by simp
  show ?thesis
    unfolding draw_within_iff using q(1-3) rw rh one
    by (simp add: toDraw_def int_box_def Let_def)
qed

lemma width_toDraw [simp]: "width (toDraw cw ch b) = width b"
  by (simp add: toDraw_def Let_def)

lemma height_toDraw [simp]: "height (toDraw cw ch b) = height b"
  by (simp add: toDraw_def Let_def)

section \<open>The total height and the global scale\<close>

lemma spaced_bounds:
  assumes "list_all (draw_within cw ch) ds" and "0 \<le> ls"
  shows "0 \<le> spaced ls (real_heights ds)"
    and "spaced ls (real_heights ds) \<le> int (length ds) * (ch + ls)"
  using assms by (induction ds) (auto simp: algebra_simps dest: draw_within_height(2,3))

lemma foldl_heights:
  assumes "list_all (draw_within cw ch) ds" and "0 \<le> ls" and "0 \<le> p"
    and "p + int (length ds) * (ch + ls) \<le> 2 ^ 52"
  shows "foldl (\<lambda>prev cur. js_add (js_add prev (realHeight cur)) (js_int ls)) (js_int p) ds
         = js_int (p + spaced ls (real_heights ds))"
  using assms
proof (induction ds arbitrary: p)
  case Nil
  then show ?case by simp
next
  case (Cons d ds)
  let ?h = "the (as_int (realHeight d))"
  from Cons.prems have d: "draw_within cw ch d" and ds: "list_all (draw_within cw ch) ds" by simp_all
  note h = draw_within_height [OF d]
  from Cons.prems have len: "p + (ch + ls) + int (length ds) * (ch + ls) \<le> 2 ^ 52"
    by (simp add: algebra_simps)
  from spaced_bounds(2) [OF ds Cons.prems(2)] have "0 \<le> int (length ds) * (ch + ls)"
    using spaced_bounds(1) [OF ds Cons.prems(2)] by linarith
  with len h(2,3) Cons.prems(2,3) have small: "p + ?h \<le> 2 ^ 52" "p + ?h + ls \<le> 2 ^ 52"
    "p + ?h + ls + int (length ds) * (ch + ls) \<le> 2 ^ 52" by linarith+
  with h(2) Cons.prems(2,3) have
    "js_add (js_add (js_int p) (js_int ?h)) (js_int ls) = js_int (p + ?h + ls)"
    by (simp add: js_add_int)
  moreover from ds Cons.prems(2,3) h(2) small(3) have
    "foldl (\<lambda>prev cur. js_add (js_add prev (realHeight cur)) (js_int ls)) (js_int (p + ?h + ls)) ds
       = js_int (p + ?h + ls + spaced ls (real_heights ds))"
    by (intro Cons.IH) simp_all
  ultimately show ?case by (simp add: h(1) [symmetric] algebra_simps)
qed

text \<open>The total height of real sizes that are integers is the height of their block.\<close>

lemma totalHeight_within:
  assumes "list_all (draw_within cw ch) ds" and "ds \<noteq> []" and "0 \<le> ls"
    and "int (length ds) * (ch + ls) \<le> 2 ^ 52"
  shows "totalHeight (js_int ls) ds = js_int (block_height ls (real_heights ds))"
    and "0 \<le> block_height ls (real_heights ds)"
    and "block_height ls (real_heights ds) \<le> int (length ds) * (ch + ls)"
proof -
  from assms(2) obtain d ds' where ds: "ds = d # ds'" by (cases ds) auto
  let ?h = "the (as_int (realHeight d))"
  from assms(1) ds have d: "draw_within cw ch d" and ds': "list_all (draw_within cw ch) ds'"
    by simp_all
  note h = draw_within_height [OF d] and sp = spaced_bounds [OF ds' assms(3)]
  from sp h(2,3) assms(3) show "0 \<le> block_height ls (real_heights ds)"
    and le: "block_height ls (real_heights ds) \<le> int (length ds) * (ch + ls)"
    by (simp_all add: ds block_height_Cons algebra_simps)
  from assms(4) have len: "ch + ls + int (length ds') * (ch + ls) \<le> 2 ^ 52"
    by (simp add: ds algebra_simps)
  with sp h(2,3) assms(3) have small: "ls \<le> 2 ^ 52" "?h \<le> 2 ^ 52"
    "?h + int (length ds') * (ch + ls) \<le> 2 ^ 52" by linarith+
  from assms(3) h(2) small(1,2) have
    "js_add (js_add (js_neg (js_int ls)) (js_int ?h)) (js_int ls) = js_int ?h"
    by (rule js_add_neg_start)
  moreover note foldl_heights [OF ds' assms(3) h(2) small(3)]
  ultimately show "totalHeight (js_int ls) ds = js_int (block_height ls (real_heights ds))"
    by (simp add: ds totalHeight_def block_height_Cons h(1) [symmetric])
qed

lemma heights_nonneg:
  "list_all (draw_within cw ch) ds \<Longrightarrow> list_all (\<lambda>h. 0 \<le> h) (real_heights ds)"
  by (induction ds) (auto dest: draw_within_height(2))

lemma globalScale_eq:
  assumes "0 < ch" and "t \<le> 2 ^ 49"
  shows "globalScale (js_int ch) (js_int t) = Fin (global_scale ch t)"
    and "0 < global_scale ch t" and "global_scale ch t \<le> 1"
  using quotient_bounds(1-3) [OF assms(1) _ assms(2)]
  by (auto simp: globalScale_def global_scale_def js_int_def [of 1] intro: less_imp_le)

text \<open>The block of lines times the global scale is the canvas height up to a sixteenth.\<close>

lemma global_scale_block:
  assumes "0 < ch" and "0 \<le> t" and "t \<le> 2 ^ 48"
  shows "of_int t * global_scale ch t \<le> of_int (min ch t) + 1 / 16"
    and "ch < t \<Longrightarrow> of_int ch - 1 / 16 \<le> of_int t * global_scale ch t"
  using scaled_back [OF assms(1) _ assms(3)] by (simp_all add: global_scale_def min_def)

lemma global_scale_less: "0 < ch \<Longrightarrow> t \<le> 2 ^ 49 \<Longrightarrow> global_scale ch t < 1 \<longleftrightarrow> ch < t"
  using quotient_bounds(3) [of ch t] by (simp add: global_scale_def)

lemma global_scale_normal:
  assumes "0 < ch" and "0 \<le> t" and "t \<le> 2 ^ 48"
  shows "min_normal \<le> global_scale ch t"
proof -
  have small: "min_normal \<le> 1 / 2 ^ 48" by (simp add: min_normal_def power_int_minus_divide)
  show ?thesis
  proof (cases "ch < t")
    case True
    have e: "fl (of_int 1 * 2 powi (- 48)) = of_int 1 * 2 powi (- 48)" by (rule fl_dyadic) simp_all
    from assms True have "rat_of_int t \<le> of_int (2 ^ 48)" "0 < rat_of_int t" "1 \<le> rat_of_int ch"
      by (simp_all only: of_int_le_iff of_int_0_less_iff)
    then have "1 / 2 ^ 48 \<le> rat_of_int ch / of_int t" by (simp add: field_simps)
    from fl_mono [OF this] e have "1 / 2 ^ 48 \<le> fl (rat_of_int ch / of_int t)"
      by (simp add: power_int_minus_divide)
    with small True show ?thesis by (simp add: global_scale_def)
  next
    case False
    with small show ?thesis by (simp add: global_scale_def)
  qed
qed

section \<open>The start offset\<close>

text \<open>
  With a global scale below 1 the product \<^verbatim>\<open>totalHeight * globalScale\<close> is within a
  sixteenth of the canvas height.
\<close>

lemma global_product_near:
  assumes "0 < ch" and "ch < t" and "t \<le> 2 ^ 48" and "ch \<le> 2 ^ 48"
  shows "\<bar>of_int ch - fl (of_int t * global_scale ch t)\<bar> \<le> 1 / 16"
proof -
  from assms have c: "0 \<le> ch" and t: "0 \<le> t" by simp_all
  note b = global_scale_block [OF assms(1) t assms(3)]
  from fl_mono [OF b(1)] fl_near_int(1) [OF c assms(4)] assms(2)
  have "fl (of_int t * global_scale ch t) \<le> of_int ch + 1 / 16" by (simp add: min_def)
  moreover from fl_mono [OF b(2) [OF assms(2)]] fl_near_int(2) [OF c assms(4)]
  have "of_int ch - 1 / 16 \<le> fl (of_int t * global_scale ch t)" by simp
  ultimately show ?thesis by linarith
qed

text \<open>
  The start offset is the integer margin when the block fits, and \<open>-1\<close> or \<open>0\<close> when
  it is scaled: \<open>-1\<close> when the rounded product is above the canvas height.
\<close>

lemma scaled_start_cases:
  assumes "0 < ch" and "0 \<le> t" and "t \<le> 2 ^ 48" and "ch \<le> 2 ^ 48"
  shows "scaled_start ch t (global_scale ch t)
         = (if t \<le> ch then (ch - t) div 2
            else if of_int ch < fl (of_int t * global_scale ch t) then - 1 else 0)"
proof (cases "t \<le> ch")
  case True
  then have "global_scale ch t = 1" by (simp add: global_scale_def)
  with assms have "fl (of_int t * global_scale ch t) = of_int t" by (simp add: fl_of_int)
  with True show ?thesis
    using floor_divide_of_int_eq [of "ch - t" 2, where ?'a = rat] by (simp add: scaled_start_def)
next
  case False
  with global_product_near [OF assms(1) _ assms(3,4)] show ?thesis
    by (auto simp: scaled_start_def abs_le_iff intro!: floor_unique)
qed

lemma start_y_scaled:
  assumes "0 < ch" and "0 \<le> t" and "t \<le> 2 ^ 48" and "ch \<le> 2 ^ 48"
  shows "start_y (js_int ch) (js_int t) (Fin (global_scale ch t))
         = js_int (scaled_start ch t (global_scale ch t))"
proof -
  let ?g = "global_scale ch t" and ?p = "fl (of_int t * global_scale ch t)"
  from assms have t53: "t \<le> 2 ^ 53" "t \<le> 2 ^ 49" by simp_all
  note g = globalScale_eq [OF assms(1) t53(2)]
  note m = js_mul_scale [OF assms(2) t53(1) g(2,3)]
  note val = scaled_start_cases [OF assms]
  show ?thesis
  proof (cases "t \<le> ch")
    case True
    then have "?g = 1" by (simp add: global_scale_def)
    with m(1) assms have "js_mul (js_int t) (Fin ?g) = js_int t"
      by (simp add: fl_of_int js_int_def)
    with True assms val show ?thesis
      by (simp add: start_y_def js_sub_int js_floor_half_int)
  next
    case False
    have "fl ?p = ?p" by simp
    from floor_half_diff [OF this global_product_near [OF assms(1) _ assms(3,4)]] False assms(1)
    have "js_floor (js_div (js_sub (js_int ch) (Fin ?p)) (js_int 2))
          = js_int (if of_int ch < ?p then - 1 else 0)" by simp
    with False val show ?thesis by (simp add: start_y_def m(1))
  qed
qed

section \<open>Sizes and advances under the global scale\<close>

lemma scaled_size_bounds:
  assumes "0 \<le> n" and "n \<le> 2 ^ 53" and "0 < g" and "g \<le> 1"
  shows "0 \<le> scaled_size g n" and "scaled_size g n \<le> n"
  using js_mul_scale(2,3) [OF assms] by (simp_all add: scaled_size_def floor_le_iff)

lemma scaled_advance_sum:
  assumes "0 \<le> ls" and "0 \<le> h" and "ls + h \<le> 2 ^ 53" and "0 < g" and "g \<le> 1"
  shows "js_add (js_mul (js_int ls) (Fin g)) (js_mul (js_int h) (Fin g))
         = Fin (fl (fl (of_int ls * g) + fl (of_int h * g)))"
    and "fl (of_int h * g) \<le> fl (of_int ls * g) + fl (of_int h * g)"
    and "fl (fl (of_int ls * g) + fl (of_int h * g)) \<le> of_int (ls + h)"
proof -
  from assms have b: "ls \<le> 2 ^ 53" "h \<le> 2 ^ 53" by simp_all
  note l = js_mul_scale [OF assms(1) b(1) assms(4,5)]
    and r = js_mul_scale [OF assms(2) b(2) assms(4,5)]
  from l(3) r(3) have "fl (of_int ls * g) + fl (of_int h * g) \<le> of_int (ls + h)" by simp
  note s = js_add_nonneg [OF l(2) r(2) this assms(3)]
  from s(1) show "js_add (js_mul (js_int ls) (Fin g)) (js_mul (js_int h) (Fin g))
         = Fin (fl (fl (of_int ls * g) + fl (of_int h * g)))" by (simp add: l(1) r(1))
  from l(2) show "fl (of_int h * g) \<le> fl (of_int ls * g) + fl (of_int h * g)" by simp
  from s(3) show "fl (fl (of_int ls * g) + fl (of_int h * g)) \<le> of_int (ls + h)" .
qed

lemma scaled_advance_bounds:
  assumes "0 \<le> ls" and "0 \<le> h" and "ls + h \<le> 2 ^ 53" and "0 < g" and "g \<le> 1"
  shows "0 \<le> scaled_size g h" and "scaled_size g h \<le> scaled_advance ls g h"
    and "scaled_advance ls g h \<le> ls + h"
proof -
  from assms have b: "h \<le> 2 ^ 53" by simp
  from scaled_size_bounds(1) [OF assms(2) b assms(4,5)] show "0 \<le> scaled_size g h" .
  note s = scaled_advance_sum [OF assms]
  from fl_mono [OF s(2)] show "scaled_size g h \<le> scaled_advance ls g h"
    by (simp add: scaled_size_def scaled_advance_def floor_mono)
  from s(3) show "scaled_advance ls g h \<le> ls + h"
    by (simp add: scaled_advance_def floor_le_iff)
qed

lemma advance_scaled:
  assumes "0 \<le> ls" and "0 \<le> h" and "ls + h \<le> 2 ^ 53" and "0 < g" and "g \<le> 1"
    and "realHeight d = js_int h"
  shows "advance (js_int ls) (Fin g) d = js_int (scaled_advance ls g h)"
  using scaled_advance_sum(1) [OF assms(1-5)]
  by (simp add: advance_def assms(6) scaled_advance_def) (simp add: js_int_def)

lemma scaled_size_up:
  assumes "0 \<le> h" and "min_normal \<le> g"
  shows "rat_of_int (scaled_size g h) \<le> rat_of_int h * g * one_ulp\<^sup>2"
proof -
  let ?x = "rat_of_int h * g"
  from assms(2) have "0 \<le> g" using min_normal_pos by linarith
  with assms(1) have "0 \<le> ?x * one_ulp" using one_ulp_ge(2) by simp
  then have "?x * one_ulp * 1 \<le> ?x * one_ulp * one_ulp"
    using one_ulp_ge(1) by (rule mult_left_mono [rotated])
  then have "?x * one_ulp \<le> ?x * one_ulp\<^sup>2" by (simp only: power2_eq_square mult_1_right mult.assoc)
  with fl_scaled_up(1) [OF assms] of_int_floor_le [of "fl ?x"]
  show ?thesis unfolding scaled_size_def by linarith
qed

lemma scaled_advance_up:
  assumes "0 \<le> ls" and "0 \<le> h" and "min_normal \<le> g"
  shows "rat_of_int (scaled_advance ls g h) \<le> (rat_of_int ls + rat_of_int h) * g * one_ulp\<^sup>2"
proof -
  let ?a = "fl (rat_of_int ls * g)" and ?b = "fl (rat_of_int h * g)"
  note a = fl_scaled_up [OF assms(1,3)] and b = fl_scaled_up [OF assms(2,3)]
  from a(2,3) b(2,3) have "?a + ?b = 0 \<or> min_normal \<le> ?a + ?b" by linarith
  then have "fl (?a + ?b) \<le> (?a + ?b) * one_ulp" by (rule fl_up)
  also from a(1) b(1) have "?a + ?b \<le> (rat_of_int ls + rat_of_int h) * g * one_ulp"
    by (simp only: distrib_right)
  then have "(?a + ?b) * one_ulp \<le> (rat_of_int ls + rat_of_int h) * g * one_ulp * one_ulp"
    using one_ulp_ge(2) by (rule mult_right_mono)
  finally have "fl (?a + ?b) \<le> (rat_of_int ls + rat_of_int h) * g * one_ulp\<^sup>2"
    by (simp only: power2_eq_square mult.assoc)
  with of_int_floor_le [of "fl (?a + ?b)"] show ?thesis unfolding scaled_advance_def by linarith
qed

lemma block_height_Cons2:
  "block_height ls (h # h' # hs) = h + ls + block_height ls (h' # hs)"
  by (simp add: block_height_Cons)

lemma scaled_bottom_up:
  assumes "hs \<noteq> []" and "list_all (\<lambda>h. 0 \<le> h) hs" and "0 \<le> ls" and "min_normal \<le> g"
  shows "rat_of_int (scaled_bottom y ls g hs)
         \<le> of_int y + of_int (block_height ls hs) * g * one_ulp\<^sup>2"
  using assms(1,2)
proof (induction hs arbitrary: y rule: induct_list012)
  case 1
  then show ?case by simp
next
  case (2 h)
  with scaled_size_up [OF _ assms(4), of h] show ?case by (simp add: block_height_def)
next
  case (3 h h' hs)
  from "3.prems" have pos: "list_all (\<lambda>h. 0 \<le> h) (h' # hs)" and h: "0 \<le> h" by simp_all
  have "rat_of_int (scaled_bottom (y + scaled_advance ls g h) ls g (h' # hs))
    \<le> of_int (y + scaled_advance ls g h) + of_int (block_height ls (h' # hs)) * g * one_ulp\<^sup>2"
    using pos by (intro "3.IH"(2)) simp_all
  moreover from h have
    "rat_of_int (scaled_advance ls g h) \<le> (rat_of_int ls + rat_of_int h) * g * one_ulp\<^sup>2"
    by (intro scaled_advance_up assms(3,4))
  ultimately show ?case
    by (simp only: scaled_bottom.simps block_height_Cons2 of_int_add distrib_right)
qed

lemma scaled_bottom_le:
  assumes "hs \<noteq> []" and "list_all (\<lambda>h. 0 \<le> h) hs" and "0 \<le> ls" and "min_normal \<le> g"
    and "of_int (block_height ls hs) * g \<le> rat_of_int m + 1 / 16"
    and "0 \<le> block_height ls hs" and "m \<le> 2 ^ 48"
  shows "scaled_bottom y ls g hs \<le> y + m"
proof -
  from assms(4) have "0 \<le> g" using min_normal_pos by linarith
  with assms(6) have "0 \<le> of_int (block_height ls hs) * g" by simp
  from within_one [OF assms(5) this assms(7)] scaled_bottom_up [OF assms(1-4), of y]
  have "rat_of_int (scaled_bottom y ls g hs) < of_int (y + m + 1)" by simp
  then have "scaled_bottom y ls g hs < y + m + 1" by (simp only: of_int_less_iff)
  then show ?thesis by simp
qed

section \<open>The overlays\<close>

lemma overlay_of_inside:
  assumes "draw_within cw ch d" and "0 < g" and "g \<le> 1" and "cw \<le> 2 ^ 52"
  shows "inside_h cw (width d) (overlay_of (js_int cw) (Fin g) y d)"
proof -
  from assms(1) obtain q rw where d: "scale d = Fin q" "realWidth d = js_int rw" "0 \<le> rw" "rw \<le> cw"
    "q = 1 \<longrightarrow> width d = js_int rw"
    by (auto simp: draw_within_iff)
  have one: "js_strict_neq (Fin x) (js_int 1) \<longleftrightarrow> x \<noteq> 1" for x
    by (simp add: js_strict_neq_def)
  show ?thesis
  proof (cases "q \<noteq> 1 \<or> g \<noteq> 1")
    case True
    from d(3,4) assms(4) have "rw \<le> 2 ^ 53" by simp
    from js_mul_scale [OF d(3) this assms(2,3)] obtain p where
      p: "js_mul (js_int rw) (Fin g) = Fin p" "0 \<le> p" "p \<le> of_int rw" by blast
    from p(3) d(4) have "p \<le> of_int cw" by (meson of_int_le_iff order_trans)
    from floor_half_sub [OF p(2) this assms(4)] obtain n where
      "js_floor (js_div (js_sub (js_int cw) (Fin p)) (js_int 2)) = js_int n" "0 \<le> n"
      "2 * n + \<lfloor>p\<rfloor> \<le> cw" by blast
    with True p(1,2) show ?thesis
      unfolding inside_h_iff
      by (simp add: overlay_of_def d(1,2) one shown_width_def Let_def) (simp add: js_int_def)
  next
    case False
    have "0 \<le> rat_of_int rw" "rat_of_int rw \<le> of_int cw" using d(3,4) by simp_all
    from floor_half_sub [OF this assms(4)] obtain n where
      "js_floor (js_div (js_sub (js_int cw) (js_int rw)) (js_int 2)) = js_int n" "0 \<le> n"
      "2 * n + rw \<le> cw" by (auto simp: js_int_def)
    with False d(3,5) show ?thesis
      unfolding inside_h_iff
      by (simp add: overlay_of_def d(1,2) one shown_width_def)
  qed
qed

lemma place_all_inside:
  assumes "list_all (draw_within cw ch) ds" and "0 < g" and "g \<le> 1" and "cw \<le> 2 ^ 52"
  shows "list_all2 (\<lambda>d. inside_h cw (width d)) ds (place_all (js_int cw) ls (Fin g) y ds)"
  using assms(1)
  by (induction ds arbitrary: y) (auto intro: overlay_of_inside [OF _ assms(2-4)])

lemma toDraws_within:
  assumes "0 < cw" and "0 < ch" and "list_all positive_line bs"
  shows "list_all (draw_within cw ch) (map (toDraw (js_int cw) (js_int ch)) (map int_box bs))"
  using assms(3)
proof (induction bs)
  case Nil
  then show ?case by simp
next
  case (Cons b bs)
  obtain w h s where b: "b = (w, h, s)" by (cases b)
  with Cons.prems assms(1,2) have
    "draw_within (min w cw) (min h ch) (toDraw (js_int cw) (js_int ch) (int_box b))"
    by (intro toDraw_within_min [of w h cw ch s, folded b]) (simp_all add: positive_line_def)
  then have "draw_within cw ch (toDraw (js_int cw) (js_int ch) (int_box b))"
    by (rule draw_within_mono) simp_all
  with Cons show ?case by simp
qed

lemma shown_height_overlay:
  assumes "draw_within cw ch d" and "0 < g" and "g \<le> 1" and "ch \<le> 2 ^ 53"
  shows "shown_height (height d) (overlay_of c (Fin g) y d)
         = js_int (scaled_size g (the (as_int (realHeight d))))"
proof -
  let ?h = "the (as_int (realHeight d))"
  from assms(1) obtain q where d: "scale d = Fin q" "q = 1 \<longrightarrow> height d = realHeight d"
    by (auto simp: draw_within_iff)
  note h = draw_within_height [OF assms(1)]
  from h(3) assms(4) have b: "?h \<le> 2 ^ 53" by simp
  note m = js_mul_scale [OF h(2) b assms(2,3)]
  have one: "js_strict_neq (Fin x) (js_int 1) \<longleftrightarrow> x \<noteq> 1" for x
    by (simp add: js_strict_neq_def)
  have "js_floor (js_mul (realHeight d) (Fin g)) = js_int (scaled_size g ?h)"
    by (subst h(1)) (simp add: m(1) scaled_size_def, simp add: js_int_def)
  moreover have "realHeight d = js_int (scaled_size 1 ?h)"
    using h(2) b by (subst h(1)) (simp add: scaled_size_def fl_of_int)
  ultimately show ?thesis
    using d by (auto simp: shown_height_def overlay_of_def Let_def one)
qed

lemma place_all_tops:
  assumes "list_all (draw_within cw ch) ds" and "0 \<le> ls" and "0 < g" and "g \<le> 1"
    and "- 1 \<le> y" and "y + int (length ds) * (ch + ls) \<le> 2 ^ 52"
  shows "map top' (place_all c (js_int ls) (Fin g) (js_int y) ds)
         = map js_int (scaled_tops y ls g (real_heights ds))"
  using assms(1,5,6)
proof (induction ds arbitrary: y)
  case Nil
  then show ?case by simp
next
  case (Cons d ds)
  let ?h = "the (as_int (realHeight d))"
  from Cons.prems have d: "draw_within cw ch d" and ds: "list_all (draw_within cw ch) ds" by simp_all
  note h = draw_within_height [OF d]
  from spaced_bounds [OF ds assms(2)] have nn: "0 \<le> int (length ds) * (ch + ls)" by linarith
  from Cons.prems(3) have len: "y + (ch + ls) + int (length ds) * (ch + ls) \<le> 2 ^ 52"
    by (simp add: algebra_simps)
  have "(2::int) ^ 52 + 1 \<le> 2 ^ 53" by simp
  with len nn h(2,3) assms(2) Cons.prems(2) have small: "ls + ?h \<le> 2 ^ 53" by linarith
  note a = advance_scaled [OF assms(2) h(2) small assms(3,4) h(1)]
    and b = scaled_advance_bounds [OF assms(2) h(2) small assms(3,4)]
  from b(1,2) have a0: "0 \<le> scaled_advance ls g ?h" by simp
  with b(3) h(3) len nn Cons.prems(2) \<open>(2::int) ^ 52 + 1 \<le> 2 ^ 53\<close> have
    y': "- 1 \<le> y + scaled_advance ls g ?h"
      "y + scaled_advance ls g ?h + int (length ds) * (ch + ls) \<le> 2 ^ 52"
      "y + scaled_advance ls g ?h \<le> 2 ^ 53" by linarith+
  from y'(1,3) have "\<bar>y + scaled_advance ls g ?h\<bar> \<le> 2 ^ 53" by simp
  with Cons.IH [OF ds y'(1,2)] show ?case
    by (simp add: a js_add_int)
qed

lemma place_all_stacked:
  assumes "list_all (draw_within cw ch) ds" and "0 \<le> ls" and "0 < g" and "g \<le> 1"
    and "- 1 \<le> y" and "lo \<le> y" and "y + int (length ds) * (ch + ls) \<le> 2 ^ 52"
    and "scaled_bottom y ls g (real_heights ds) \<le> hi"
  shows "stacked lo hi (zip (map height ds) (place_all c (js_int ls) (Fin g) (js_int y) ds))"
  using assms(1,5-8)
proof (induction ds arbitrary: y lo)
  case Nil
  then show ?case by simp
next
  case (Cons d ds)
  let ?h = "the (as_int (realHeight d))"
  from Cons.prems have d: "draw_within cw ch d" and ds: "list_all (draw_within cw ch) ds" by simp_all
  note h = draw_within_height [OF d]
  from spaced_bounds [OF ds assms(2)] have nn: "0 \<le> int (length ds) * (ch + ls)" by linarith
  from Cons.prems(4) have len: "y + (ch + ls) + int (length ds) * (ch + ls) \<le> 2 ^ 52"
    by (simp add: algebra_simps)
  have p: "(2::int) ^ 52 + 1 \<le> 2 ^ 53" by simp
  with len nn h(2,3) assms(2) Cons.prems(2) have small: "ls + ?h \<le> 2 ^ 53" "ch \<le> 2 ^ 53"
    by linarith+
  note a = advance_scaled [OF assms(2) h(2) small(1) assms(3,4) h(1)]
    and b = scaled_advance_bounds [OF assms(2) h(2) small(1) assms(3,4)]
  from b h(3) len nn Cons.prems(2) p have
    y': "- 1 \<le> y + scaled_advance ls g ?h" "y + scaled_size g ?h \<le> y + scaled_advance ls g ?h"
      "y + scaled_advance ls g ?h + int (length ds) * (ch + ls) \<le> 2 ^ 52"
      "y + scaled_advance ls g ?h \<le> 2 ^ 53" by linarith+
  from y'(1,4) have ay: "\<bar>y + scaled_advance ls g ?h\<bar> \<le> 2 ^ 53" by simp
  have "stacked (y + scaled_size g ?h) hi
          (zip (map height ds)
             (place_all c (js_int ls) (Fin g) (js_int (y + scaled_advance ls g ?h)) ds))"
  proof (cases ds)
    case Nil
    with Cons.prems(5) show ?thesis by simp
  next
    case (Cons d' ds')
    with Cons.prems(5) have "scaled_bottom (y + scaled_advance ls g ?h) ls g (real_heights ds) \<le> hi"
      by simp
    from Cons.IH [OF ds y'(1,2,3) this] show ?thesis .
  qed
  with Cons.prems(3) b(1) ay show ?case
    by (simp add: shown_height_overlay [OF d assms(3,4) small(2)] a js_add_int)
qed

text \<open>Evaluation: a line 2116 pixels wide on the canvas of \<^verbatim>\<open>xibao\<close> gets 1291 pixels.\<close>

lemma toDraw_width_short:
  "realWidth (toDraw (js_int 1292) (js_int 968) (int_box (2116, 100, []))) = js_int 1291"
  by (simp add: layout_defs js_eval int_box_def cong: let_weak_cong)

lemma fit_scale_example:
  "fit_scale (js_int 1000) (js_int 1000) (int_box (2000, 100, [])) = Fin (1 / 2)"
  by (simp add: layout_defs js_eval int_box_def cong: let_weak_cong)

section \<open>Properties\<close>

text \<open>
  C17. The overlays handed to the compositor show the drawings of the lines, one overlay
  per line and in the order of the lines, whatever the sizes and scales are.
\<close>

theorem generateImage_drawings:
  "map (\<lambda>c. drawing (input c)) (composites (generateImage bg cw ch svgs l)) = map svg svgs"
  by (simp add: generateImage_composites Let_def drawing_place_all comp_def)

text \<open>
  C2. Lines that fit are laid out exactly as promised: when no line is wider or higher
  than the canvas and the block of lines with the spaces between them is not higher
  than the canvas, \<^verbatim>\<open>generateImage\<close> hands every drawing to the compositor as it is,
  centred horizontally at \<open>(cw - w) div 2\<close>, stacked from \<open>(ch - block) div 2\<close> with the
  line space between consecutive lines, and prints no warning. No rounding error
  enters: every intermediate number is an integer below \<open>2\<^sup>5\<^sup>3\<close>.
\<close>

theorem generateImage_fits:
  "fits cw ch bs ls \<Longrightarrow>
     generateImage bg (js_int cw) (js_int ch) (map int_box bs) (Some (js_int ls)) =
     unscaled_plan bg cw ch bs ls"
  by (rule generateImage_unscaled)

theorem generateImage_fits_witness:
  "generateImage [] (js_int 1000) (js_int 1000) (map int_box [(500, 100, []), (500, 100, [])])
     (Some (js_int 16)) =
   \<lparr>background = [],
    composites = [\<lparr>input = Raw [], left = js_int 250, top' = js_int 392\<rparr>,
                  \<lparr>input = Raw [], left = js_int 250, top' = js_int 508\<rparr>],
    warning = None\<rparr>"
  using generateImage_fits [of 1000 1000 "[(500, 100, []), (500, 100, [])]" 16 "[]"]
  by (simp add: fits_def sized_def unscaled_plan_def block_height_def line_height_def
      int_overlay_def)

text \<open>
  C8. Lines that fit are placed inside the canvas: the overlay of each line starts at
  non-negative offsets and ends within the width and the height of the canvas.
\<close>

theorem generateImage_fits_inside:
  assumes "fits cw ch bs ls" and "i < length bs" and "bs ! i = (w, h, s)"
  shows "\<exists>x y. composites (generateImage bg (js_int cw) (js_int ch) (map int_box bs)
                   (Some (js_int ls))) ! i = \<lparr>input = Raw s, left = js_int x, top' = js_int y\<rparr>
           \<and> 0 \<le> x \<and> x + w \<le> cw \<and> 0 \<le> y \<and> y + h \<le> ch"
proof -
  from assms(1,2) have "sized cw ch (bs ! i)" by (simp add: fits_def list_all_length)
  with assms(3) have "0 \<le> w" "w \<le> cw" by (simp_all add: sized_def)
  then have "0 \<le> (cw - w) div 2" "(cw - w) div 2 + w \<le> cw" by linarith+
  with top_of_bounds [OF assms(1,2)] assms show ?thesis
    by (simp add: generateImage_unscaled nth_unscaled_plan int_overlay_def line_height_def)
qed

theorem generateImage_fits_inside_witness:
  "\<exists>x y. composites (generateImage [] (js_int 1292) (js_int 968)
       (map int_box [(600, 111, []), (801, 111, [])]) (Some (js_int 16))) ! 1 =
       \<lparr>input = Raw [], left = js_int x, top' = js_int y\<rparr>
     \<and> 0 \<le> x \<and> x + 801 \<le> 1292 \<and> 0 \<le> y \<and> y + 111 \<le> 968"
  using generateImage_fits_inside [of 1292 968 "[(600, 111, []), (801, 111, [])]" 16 1 801 111 "[]" "[]"]
  by (simp add: fits_def sized_def block_height_def line_height_def)

text \<open>
  C20. Lines that fit do not overlap: the top of each line is the top of the line before
  it plus that line's height plus the line space.
\<close>

theorem generateImage_fits_spacing:
  assumes "fits cw ch bs ls" and "Suc i < length bs"
  shows "\<exists>y. map top' (composites (generateImage bg (js_int cw) (js_int ch) (map int_box bs)
                (Some (js_int ls)))) ! i = js_int y
           \<and> map top' (composites (generateImage bg (js_int cw) (js_int ch) (map int_box bs)
                (Some (js_int ls)))) ! Suc i = js_int (y + line_height (bs ! i) + ls)"
  using assms
  by (simp add: generateImage_unscaled tops_unscaled_plan nth_stack_tops spaced_take_Suc)

theorem generateImage_fits_spacing_witness:
  "\<exists>y. map top' (composites (generateImage [] (js_int 1292) (js_int 968)
       (map int_box [(600, 111, []), (801, 120, [])]) (Some (js_int 16)))) ! 0 = js_int y
     \<and> map top' (composites (generateImage [] (js_int 1292) (js_int 968)
       (map int_box [(600, 111, []), (801, 120, [])]) (Some (js_int 16)))) ! Suc 0
       = js_int (y + 111 + 16)"
  using generateImage_fits_spacing [of 1292 968 "[(600, 111, []), (801, 120, [])]" 16 0 "[]"]
  by (simp add: fits_def sized_def block_height_def line_height_def)

text \<open>
  C19. The block of lines that fit is centred vertically: the space below the last line
  is the space above the first line, or one pixel more.
\<close>

theorem generateImage_fits_centred:
  assumes "fits cw ch bs ls" and "bs \<noteq> []"
  shows "\<exists>y y'. top' (hd (composites (generateImage bg (js_int cw) (js_int ch) (map int_box bs)
                (Some (js_int ls))))) = js_int y
           \<and> top' (last (composites (generateImage bg (js_int cw) (js_int ch) (map int_box bs)
                (Some (js_int ls))))) = js_int y'
           \<and> ch - (y' + line_height (last bs)) - y \<in> {0, 1}"
proof -
  let ?hs = "map line_height bs" and ?n = "length bs - 1"
  let ?cs = "composites (unscaled_plan bg cw ch bs ls)"
  from assms(2) have n: "?n < length bs" "Suc ?n = length bs" by (simp_all add: Suc_leI)
  have "length ?cs = length bs" by (simp add: unscaled_plan_def Let_def)
  with assms(2) have cs: "?cs \<noteq> []" "length ?cs = length bs" by auto
  then have "top' (hd ?cs) = js_int (top_of ch ls ?hs 0)"
    using assms(2) by (simp add: hd_conv_nth nth_unscaled_plan)
  moreover from cs n have "top' (last ?cs) = js_int (top_of ch ls ?hs ?n)"
    by (simp add: last_conv_nth nth_unscaled_plan)
  moreover from n have "spaced ls (take ?n ?hs) + line_height (last bs) = block_height ls ?hs"
    using spaced_take_Suc [of ?n ?hs ls] assms(2)
    by (simp add: block_height_spaced last_conv_nth)
  then have "ch - (top_of ch ls ?hs ?n + line_height (last bs)) - top_of ch ls ?hs 0 \<in> {0, 1}"
    by (simp add: top_of_def) presburger
  ultimately show ?thesis by (simp add: generateImage_unscaled [OF assms(1)])
qed

theorem generateImage_fits_centred_witness:
  "\<exists>y y'. top' (hd (composites (generateImage [] (js_int 1292) (js_int 968)
       (map int_box [(600, 111, []), (801, 120, [])]) (Some (js_int 16))))) = js_int y
     \<and> top' (last (composites (generateImage [] (js_int 1292) (js_int 968)
       (map int_box [(600, 111, []), (801, 120, [])]) (Some (js_int 16))))) = js_int y'
     \<and> 968 - (y' + 120) - y \<in> {0, 1}"
  using generateImage_fits_centred [of 1292 968 "[(600, 111, []), (801, 120, [])]" 16 "[]"]
  by (simp add: fits_def sized_def block_height_def line_height_def)

text \<open>
  C7. The tops of the overlays, scaled or not: for lines of positive integer size on a
  canvas of positive integer size the tops are those of the recursion \<open>scaled_tops\<close> on
  rationals, which starts at the integer margin \<open>(height - totalHeight) div 2\<close> when the
  block fits, and at \<open>-1\<close> or \<open>0\<close> when it is scaled down: at \<open>-1\<close> exactly when
  \<^verbatim>\<open>totalHeight * globalScale\<close> rounds to a double above the height. The warning
  reports the rounded quotient \<^verbatim>\<open>height / totalHeight\<close>, and it is printed exactly when
  the global scale is below 1. On the canvas of 1292 by 968 pixels two lines 535 pixels
  high make a block of 1086 pixels and the first line is placed at \<^verbatim>\<open>top: -1\<close>.
\<close>

theorem generateImage_tops:
  assumes "0 < cw" and "cw \<le> 2 ^ 48" and "0 < ch" and "ch \<le> 2 ^ 48" and "0 \<le> ls"
    and "list_all positive_line bs"
    and "int (length bs) * (ch + ls) \<le> 2 ^ 48"
  shows "let plan = generateImage bg (js_int cw) (js_int ch) (map int_box bs) (Some (js_int ls));
             hs = real_heights (map (toDraw (js_int cw) (js_int ch)) (map int_box bs));
             t = block_height ls hs;
             g = global_scale ch t;
             y = (if t \<le> ch then (ch - t) div 2 else if of_int ch < fl (of_int t * g) then - 1 else 0)
         in map top' (composites plan) = map js_int (scaled_tops y ls g hs)
            \<and> warning plan = (if ch < t then Some (Fin g) else None)
            \<and> (g < 1 \<longleftrightarrow> ch < t)"
proof (cases "bs = []")
  case True
  with assms(3,5) show ?thesis
    by (simp add: generateImage_Nil Let_def js_gt_neg_int block_height_def global_scale_def)
next
  case False
  let ?ds = "map (toDraw (js_int cw) (js_int ch)) (map int_box bs)"
  let ?t = "block_height ls (real_heights ?ds)"
  let ?g = "global_scale ch ?t"
  let ?y = "scaled_start ch ?t ?g"
  note ds = toDraws_within [OF assms(1,3,6)]
  from False have ne: "?ds \<noteq> []" by simp
  from assms(7) have len: "int (length ?ds) * (ch + ls) \<le> 2 ^ 52" by simp
  note t = totalHeight_within [OF ds ne assms(5) len]
  from t(3) assms(7) have t48: "?t \<le> 2 ^ 48" "?t \<le> 2 ^ 49" by simp_all
  note g = globalScale_eq [OF assms(3) t48(2)]
    and y = start_y_scaled [OF assms(3) t(2) t48(1) assms(4)]
    and yc = scaled_start_cases [OF assms(3) t(2) t48(1) assms(4)]
  from yc assms(3) t(2) have y0: "- 1 \<le> ?y" "?y \<le> ch" by (auto split: if_splits)
  from y0(2) assms(4,7) have "?y + int (length ?ds) * (ch + ls) \<le> 2 ^ 52" by simp
  note tops = place_all_tops [OF ds assms(5) g(2,3) y0(1) this, of "js_int cw"]
  have "map top' (composites (generateImage bg (js_int cw) (js_int ch) (map int_box bs)
          (Some (js_int ls)))) = map js_int (scaled_tops ?y ls ?g (real_heights ?ds))"
    using tops by (simp add: generateImage_composites Let_def t(1) g(1) y del: map_map)
  moreover have "warning (generateImage bg (js_int cw) (js_int ch) (map int_box bs)
          (Some (js_int ls))) = (if ch < ?t then Some (Fin ?g) else None)"
    by (simp add: generateImage_def Let_def t(1) g(1) del: map_map)
  ultimately show ?thesis
    using global_scale_less [OF assms(3) t48(2)] by (simp only: Let_def yc)
qed

theorem generateImage_tops_witness:
  "map top' (composites (generateImage [] (js_int 1292) (js_int 968)
     (map int_box [(600, 535, []), (600, 535, [])]) (Some (js_int 16)))) = [js_int (- 1), js_int 490]
   \<and> warning (generateImage [] (js_int 1292) (js_int 968)
     (map int_box [(600, 535, []), (600, 535, [])]) (Some (js_int 16)))
     = Some (Fin (8028516462789393 / 9007199254740992))"
  using generateImage_tops [of 1292 968 16 "[(600, 535, []), (600, 535, [])]" "[]"]
  by (simp add: positive_line_def toDraw_int real_heights_def int_draw_def block_height_def Let_def,
      simp add: global_scale_def scaled_advance_def js_eval)

text \<open>
  C15. A line that does not fit is shrunk to the canvas and not further, up to one
  pixel: when the width binds (the line is wider than the canvas and relatively at
  least as wide as it is high), \<^verbatim>\<open>realWidth\<close> is the canvas width or one less; when the
  height binds, \<^verbatim>\<open>realHeight\<close> is the canvas height or one less. The loss of a pixel
  occurs: a line 2116 pixels wide on the canvas 1292 pixels wide gets 1291 pixels.
\<close>

theorem toDraw_tight:
  assumes "0 < w" "0 < h" "0 < cw" "0 < ch" "w \<le> 2 ^ 48" "h \<le> 2 ^ 48"
  shows "(cw < w \<and> h * cw \<le> ch * w \<longrightarrow>
            realWidth (toDraw (js_int cw) (js_int ch) (int_box (w, h, s))) \<in> {js_int (cw - 1), js_int cw})
       \<and> (ch < h \<and> w * ch \<le> cw * h \<longrightarrow>
            realHeight (toDraw (js_int cw) (js_int ch) (int_box (w, h, s))) \<in> {js_int (ch - 1), js_int ch})"
  using fit_scale_binding [OF assms, of s] scaled_to_canvas [OF assms(3) _ assms(5)]
    scaled_to_canvas [OF assms(4) _ assms(6)]
  by (simp add: toDraw_def Let_def int_box_def)

theorem toDraw_tight_witness:
  "realWidth (toDraw (js_int 1292) (js_int 968) (int_box (2116, 100, []))) \<in> {js_int 1291, js_int 1292}
   \<and> realWidth (toDraw (js_int 1292) (js_int 968) (int_box (2116, 100, []))) = js_int 1291"
  using toDraw_tight [of 2116 100 1292 968 "[]"] toDraw_width_short by simp

text \<open>
  C14. For a drawing of positive integer size on a canvas of positive integer size,
  the element of \<^verbatim>\<open>toDraws\<close> has a scale in \<open>(0, 1]\<close> that is 1 exactly when the drawing
  is neither wider nor higher than the canvas, and a real size in whole pixels that is
  not larger than the drawing and not larger than the canvas: the rounding of
  \<^verbatim>\<open>width / svg.width\<close> never makes \<^verbatim>\<open>Math.floor(svg.width * scale)\<close> exceed the width.
\<close>

theorem toDraw_within:
  assumes "0 < w" "0 < h" "0 < cw" "0 < ch" "w \<le> 2 ^ 48" "h \<le> 2 ^ 48"
  shows "draw_within (min w cw) (min h ch) (toDraw (js_int cw) (js_int ch) (int_box (w, h, s)))
    \<and> (scale (toDraw (js_int cw) (js_int ch) (int_box (w, h, s))) = js_int 1 \<longleftrightarrow> w \<le> cw \<and> h \<le> ch)"
proof -
  from fit_scale_int [OF assms, of s] obtain q where
    "fit_scale (js_int cw) (js_int ch) (int_box (w, h, s)) = Fin q" "q = 1 \<longleftrightarrow> w \<le> cw \<and> h \<le> ch"
    by blast
  then have "scale (toDraw (js_int cw) (js_int ch) (int_box (w, h, s))) = js_int 1
             \<longleftrightarrow> w \<le> cw \<and> h \<le> ch"
    by (simp add: toDraw_def Let_def js_int_def)
  with toDraw_within_min [OF assms] show ?thesis by simp
qed

theorem toDraw_within_witness:
  "draw_within 1292 120 (toDraw (js_int 1292) (js_int 968) (int_box (2116, 120, js_str ''a'')))
   \<and> scale (toDraw (js_int 1292) (js_int 968) (int_box (2116, 120, js_str ''a''))) \<noteq> js_int 1"
  using toDraw_within [of 2116 120 1292 968 "js_str ''a''"] by simp

text \<open>
  C4. For lines of positive integer size on a canvas of positive integer size, scaled
  or not, every overlay is horizontally inside the canvas: \<^verbatim>\<open>left\<close> is an integer that
  is not negative, the width the overlay is drawn with is an integer, and twice the
  left margin plus the width is at most the canvas width.
\<close>

theorem generateImage_inside:
  assumes "0 < cw" and "cw \<le> 2 ^ 48" and "0 < ch" and "0 \<le> ls"
    and "list_all positive_line bs"
    and "int (length bs) * (ch + ls) \<le> 2 ^ 48"
  shows "list_all2 (\<lambda>b. inside_h cw (width b)) (map int_box bs)
           (composites (generateImage bg (js_int cw) (js_int ch) (map int_box bs) (Some (js_int ls))))"
proof (cases "bs = []")
  case True
  then show ?thesis by (simp add: generateImage_Nil)
next
  case False
  let ?ds = "map (toDraw (js_int cw) (js_int ch)) (map int_box bs)"
  note ds = toDraws_within [OF assms(1,3,5)]
  from False have ne: "?ds \<noteq> []" by simp
  from assms(6) have len: "int (length ?ds) * (ch + ls) \<le> 2 ^ 52" by simp
  note t = totalHeight_within [OF ds ne assms(4) len]
  from t(3) assms(6) have "block_height ls (real_heights ?ds) \<le> 2 ^ 49" by simp
  note g = globalScale_eq [OF assms(3) this]
  from assms(2) have "cw \<le> 2 ^ 52" by simp
  from place_all_inside [OF ds g(2,3) this]
  have "list_all2 (\<lambda>d. inside_h cw (width d)) ?ds
          (composites (generateImage bg (js_int cw) (js_int ch) (map int_box bs) (Some (js_int ls))))"
    by (simp add: generateImage_composites Let_def t(1) g(1) del: map_map)
  then show ?thesis by (simp add: list_all2_map1 del: map_map)
qed

theorem generateImage_inside_witness:
  "list_all2 (\<lambda>b. inside_h 1292 (width b))
     (map int_box [(2116, 120, js_str ''a''), (600, 535, js_str ''b'')])
     (composites (generateImage (js_str ''bg'') (js_int 1292) (js_int 968)
        (map int_box [(2116, 120, js_str ''a''), (600, 535, js_str ''b'')]) (Some (js_int 16))))"
  using generateImage_inside [of 1292 968 16 "[(2116, 120, js_str ''a''), (600, 535, js_str ''b'')]"
      "js_str ''bg''"]
  by (simp add: positive_line_def)

text \<open>
  C1. For lines of positive integer size on a canvas of positive integer size, scaled
  or not, the overlays are stacked from top to bottom inside the canvas, up to one
  pixel at the top: every top and every height drawn is an integer, the first top is
  at least \<open>-1\<close>, every overlay starts at or below the end of the one before it, and
  the last one ends at or above the lower edge of the canvas.
\<close>

theorem generateImage_stacked:
  assumes "0 < cw" and "cw \<le> 2 ^ 48" and "0 < ch" and "ch \<le> 2 ^ 48" and "0 \<le> ls"
    and "list_all positive_line bs"
    and "int (length bs) * (ch + ls) \<le> 2 ^ 48"
  shows "stacked (- 1) ch (zip (map height (map int_box bs))
           (composites (generateImage bg (js_int cw) (js_int ch) (map int_box bs) (Some (js_int ls)))))"
proof (cases "bs = []")
  case True
  with assms(3) show ?thesis by (simp add: generateImage_Nil)
next
  case False
  let ?ds = "map (toDraw (js_int cw) (js_int ch)) (map int_box bs)"
  let ?t = "block_height ls (real_heights ?ds)"
  let ?g = "global_scale ch ?t"
  let ?y = "scaled_start ch ?t ?g"
  note ds = toDraws_within [OF assms(1,3,6)]
  from False have ne: "?ds \<noteq> []" by simp
  from assms(7) have len: "int (length ?ds) * (ch + ls) \<le> 2 ^ 52" by simp
  note t = totalHeight_within [OF ds ne assms(5) len]
  from t(3) assms(7) have t48: "?t \<le> 2 ^ 48" "?t \<le> 2 ^ 49" by simp_all
  note g = globalScale_eq [OF assms(3) t48(2)]
    and y = start_y_scaled [OF assms(3) t(2) t48(1) assms(4)]
    and yc = scaled_start_cases [OF assms(3) t(2) t48(1) assms(4)]
    and gn = global_scale_normal [OF assms(3) t(2) t48(1)]
    and gb = global_scale_block(1) [OF assms(3) t(2) t48(1)]
  from yc assms(3) t(2) have y0: "- 1 \<le> ?y" "?y + min ch ?t \<le> ch" "?y \<le> ch"
    by (auto simp: min_def split: if_splits)
  from ne have hne: "real_heights ?ds \<noteq> []" by (simp add: real_heights_def)
  from assms(4) t48(1) have m: "min ch ?t \<le> 2 ^ 48" by simp
  from scaled_bottom_le [OF hne heights_nonneg [OF ds] assms(5) gn gb t(2) m, of ?y] y0(2)
  have bottom: "scaled_bottom ?y ls ?g (real_heights ?ds) \<le> ch" by simp
  from y0(3) assms(4,7) have "?y + int (length ?ds) * (ch + ls) \<le> 2 ^ 52" by simp
  note st = place_all_stacked [OF ds assms(5) g(2,3) y0(1) y0(1) this bottom, of "js_int cw"]
  have hs: "map height (map int_box bs) = map height ?ds" by simp
  have "composites (generateImage bg (js_int cw) (js_int ch) (map int_box bs) (Some (js_int ls)))
        = place_all (js_int cw) (js_int ls) (Fin ?g) (js_int ?y) ?ds"
    by (simp add: generateImage_composites Let_def t(1) g(1) y del: map_map)
  with st show ?thesis by (simp only: hs)
qed

theorem generateImage_stacked_witness:
  "stacked (- 1) 968 (zip (map height (map int_box [(600, 535, js_str ''a''), (600, 535, js_str ''b'')]))
     (composites (generateImage (js_str ''bg'') (js_int 1292) (js_int 968)
        (map int_box [(600, 535, js_str ''a''), (600, 535, js_str ''b'')]) (Some (js_int 16)))))"
  using generateImage_stacked [of 1292 968 16 "[(600, 535, js_str ''a''), (600, 535, js_str ''b'')]"
      "js_str ''bg''"]
  by (simp add: positive_line_def)

end
