(* ===== verification/Text_Option.thy ===== *)
theory Text_Option
  imports Text_Lines JS_Number
begin

text \<open>
  The option normaliser, \<^verbatim>\<open>parseTextOption\<close> of \<^verbatim>\<open>src/index.js\<close>: a text is split
  into lines, a list of lines or options is taken as it is, and every entry is
  completed by \<^verbatim>\<open>Object.assign\<close> from the built-in style, the default configuration
  and the entry itself, later sources winning. Objects are finite maps from property
  names to values, so that a missing property, the merge and its precedence are those
  of the code.
\<close>

section \<open>Objects\<close>

text \<open>The values the properties of an option hold.\<close>

datatype js_value = Str js_string | Num js_number | Undefined

type_synonym js_object = "string \<rightharpoonup> js_value"

text \<open>
  \<^verbatim>\<open>Object.assign(target, ...sources)\<close>: the properties of each source in turn are
  written over those of the target.
\<close>

definition object_assign :: "js_object \<Rightarrow> js_object list \<Rightarrow> js_object" where
  "object_assign target sources = foldl (++) target sources"

section \<open>The input and its options\<close>

text \<open>
  An entry of an array argument is a string or an option object; the argument is a
  string or such an array. These are the arguments the documentation of the function
  allows (\<^verbatim>\<open>string|Array<string|TextOption>\<close>). Any other argument is outside the
  model: a value that is neither a string nor an array reaches \<^verbatim>\<open>textOrTexts.map\<close> in
  the code, which throws a \<^verbatim>\<open>TypeError\<close> when the value has no such method, and an
  entry that is neither a string nor an object is handed to \<^verbatim>\<open>Object.assign\<close> as it
  is. The properties on exceptions therefore speak of strings and arrays only.
\<close>

datatype textlike = Line js_string | Conf js_object

datatype text_input = Text js_string | Texts "textlike list"

text \<open>The object literal \<^verbatim>\<open>{ text }\<close>.\<close>

definition text_object :: "js_string \<Rightarrow> js_object" where
  "text_object t = [''text'' \<mapsto> Str t]"

text \<open>The body of \<^verbatim>\<open>textOrTexts.map\<close>.\<close>

fun as_option :: "textlike \<Rightarrow> js_object" where
  "as_option (Line t) = text_object t"
| "as_option (Conf c) = c"

text \<open>
  The value of \<^verbatim>\<open>opts\<close>: the lines of a text, or the entries of an array. Splitting
  the text can throw.
\<close>

fun to_opts :: "text_input \<Rightarrow> js_error + js_object list" where
  "to_opts (Text t) =
     (case textToLines16 t of Inl e \<Rightarrow> Inl e | Inr ls \<Rightarrow> Inr (map text_object ls))"
| "to_opts (Texts ts) = Inr (map as_option ts)"

section \<open>Defaults and the merge\<close>

text \<open>The default value of the parameter \<^verbatim>\<open>defaultConfig\<close>.\<close>

definition default_defaultConfig :: js_object where
  "default_defaultConfig =
     [''color'' \<mapsto> Str (js_str ''red''), ''strokeColor'' \<mapsto> Str (js_str ''#fcf88d''),
      ''strokeSize'' \<mapsto> Num (js_int 12), ''fontSize'' \<mapsto> Num (js_int 108)]"

text \<open>The target of \<^verbatim>\<open>Object.assign\<close>: a fresh object with the built-in style.\<close>

definition builtin_style :: js_object where
  "builtin_style =
     [''color'' \<mapsto> Str (js_str ''red''), ''strokeColor'' \<mapsto> Str (js_str ''#fcf88d''),
      ''strokeSize'' \<mapsto> Num (js_int 12), ''fontSize'' \<mapsto> Num (js_int 108)]"

text \<open>The body of \<^verbatim>\<open>opts.map\<close>.\<close>

definition with_defaults :: "js_object \<Rightarrow> js_object \<Rightarrow> js_object" where
  "with_defaults defaultConfig conf = object_assign builtin_style [defaultConfig, conf]"

text \<open>
  \<^verbatim>\<open>parseTextOption(textOrTexts, defaultConfig)\<close>; the second argument is \<open>None\<close> when
  it is left out or \<^verbatim>\<open>undefined\<close>.
\<close>

definition parseTextOption ::
  "text_input \<Rightarrow> js_object option \<Rightarrow> js_error + js_object list" where
  "parseTextOption textOrTexts defaultConfig_arg =
     (let defaultConfig =
            (case defaultConfig_arg of None \<Rightarrow> default_defaultConfig | Some d \<Rightarrow> d)
      in case to_opts textOrTexts of
           Inl e \<Rightarrow> Inl e
         | Inr opts \<Rightarrow> Inr (map (with_defaults defaultConfig) opts))"

text \<open>The properties \<^verbatim>\<open>textSvg\<close> reads from an option besides the text.\<close>

definition style_keys :: "string list" where
  "style_keys = [''color'', ''strokeColor'', ''strokeSize'', ''fontSize'']"

text \<open>
  The precedence the merge promises for a property: the entry's own value, else the
  default configuration's, else the built-in one.
\<close>

definition preferred :: "js_object \<Rightarrow> js_object \<Rightarrow> string \<Rightarrow> js_value option" where
  "preferred defaultConfig conf k =
     (case conf k of Some v \<Rightarrow> Some v
      | None \<Rightarrow> (case defaultConfig k of Some v \<Rightarrow> Some v | None \<Rightarrow> builtin_style k))"

lemmas text_option_defs [xibao_defs] =
  object_assign_def text_object_def default_defaultConfig_def builtin_style_def
  with_defaults_def parseTextOption_def style_keys_def preferred_def

section \<open>The merge\<close>

lemma with_defaults_apply: "with_defaults d c k = preferred d c k"
  by (simp add: with_defaults_def object_assign_def preferred_def map_add_def split: option.split)

lemma with_defaults_eq: "with_defaults d c = builtin_style ++ d ++ c"
  by (simp add: with_defaults_def object_assign_def)

lemma dom_builtin_style: "dom builtin_style = set style_keys"
  by (auto simp: builtin_style_def style_keys_def)

lemma default_is_builtin: "default_defaultConfig = builtin_style"
  by (simp add: default_defaultConfig_def builtin_style_def)

lemma dom_with_defaults: "dom (with_defaults d c) = set style_keys \<union> dom d \<union> dom c"
  by (simp add: with_defaults_eq dom_builtin_style Un_commute Un_left_commute)

lemma with_defaults_idem: "with_defaults d (with_defaults d c) = with_defaults d c"
  by (rule ext) (simp add: with_defaults_apply preferred_def split: option.split)

lemma parseTextOption_Texts:
  "parseTextOption (Texts ts) (Some d) = Inr (map (\<lambda>t. with_defaults d (as_option t)) ts)"
  by (simp add: parseTextOption_def)

lemma parseTextOption_Text:
  "parseTextOption (Text t) (Some d) =
     (case textToLines16 t of Inl e \<Rightarrow> Inl e
      | Inr ls \<Rightarrow> Inr (map (\<lambda>l. with_defaults d (text_object l)) ls))"
  by (simp add: parseTextOption_def split: sum.split)

lemma parseTextOption_None: "parseTextOption x None = parseTextOption x (Some builtin_style)"
  by (simp add: parseTextOption_def default_is_builtin)

lemma parseTextOption_elems:
  assumes "parseTextOption x d = Inr opts" and "conf \<in> set opts"
  shows "\<exists>d' c. conf = with_defaults d' c"
  using assms by (cases x; cases d) (fastforce simp: parseTextOption_def split: sum.splits)+

lemma textToLines16_examples:
  "textToLines16 [] = Inl TypeError"
  "textToLines16 (js_str ''ABCDEFG XY'') = Inr [js_str ''ABCDEFG XY'']"
  by code_simp+

lemma text_of_with_defaults [simp]: "with_defaults d (text_object l) ''text'' = Some (Str l)"
  by (simp add: with_defaults_apply preferred_def text_object_def)

section \<open>Properties\<close>

text \<open>
  C9. An array argument never throws and is normalised entry by entry, in order: every
  property of a normalised option is the entry's own value if the entry has the
  property, else the default configuration's, else the built-in style's.
\<close>

theorem parseTextOption_precedence:
  "\<exists>opts. parseTextOption (Texts ts) d = Inr opts \<and>
     map (\<lambda>c. c k) opts =
     map (\<lambda>t. preferred (case d of None \<Rightarrow> default_defaultConfig | Some c \<Rightarrow> c) (as_option t) k) ts"
  by (simp add: parseTextOption_def with_defaults_apply comp_def)

text \<open>
  C26. Every normalised option is fully styled: it has the properties \<^verbatim>\<open>color\<close>,
  \<^verbatim>\<open>strokeColor\<close>, \<^verbatim>\<open>strokeSize\<close> and \<^verbatim>\<open>fontSize\<close>, whatever the input and the default
  configuration leave out.
\<close>

theorem parseTextOption_styled:
  assumes "parseTextOption x d = Inr opts" and "conf \<in> set opts"
  shows "set style_keys \<subseteq> dom conf"
proof -
  from parseTextOption_elems [OF assms] obtain d' c where "conf = with_defaults d' c" by blast
  then show ?thesis by (simp add: dom_with_defaults le_supI1)
qed

theorem parseTextOption_styled_witness:
  "set style_keys \<subseteq> dom (with_defaults Map.empty (text_object (js_str ''a'')))"
  using parseTextOption_styled [of "Texts [Line (js_str ''a'')]" "Some Map.empty"
      "[with_defaults Map.empty (text_object (js_str ''a''))]"
      "with_defaults Map.empty (text_object (js_str ''a''))"]
  by (simp add: parseTextOption_def)

text \<open>
  C27. A text is normalised to one option per line of \<^verbatim>\<open>textToLines\<close>, in order, each
  with that line as its \<^verbatim>\<open>text\<close>.
\<close>

theorem parseTextOption_lines:
  assumes "textToLines16 t = Inr ls"
  shows "\<exists>opts. parseTextOption (Text t) d = Inr opts \<and> map (\<lambda>c. c ''text'') opts = map (\<lambda>l. Some (Str l)) ls"
  using assms
  by (cases d) (simp_all add: parseTextOption_def comp_def default_is_builtin)

theorem parseTextOption_lines_witness:
  "\<exists>opts. parseTextOption (Text (js_str ''ABCDEFG XY'')) None = Inr opts \<and>
     map (\<lambda>c. c ''text'') opts = map (\<lambda>l. Some (Str l)) [js_str ''ABCDEFG XY'']"
  using parseTextOption_lines [of "js_str ''ABCDEFG XY''" "[js_str ''ABCDEFG XY'']" None]
  by (simp add: textToLines16_examples)

text \<open>
  C28. \<^verbatim>\<open>parseTextOption\<close> throws exactly when its argument is a text on which
  \<^verbatim>\<open>textToLines\<close> throws, and then the same error.
\<close>

theorem parseTextOption_error_iff:
  "parseTextOption x d = Inl e \<longleftrightarrow> (\<exists>t. x = Text t \<and> textToLines16 t = Inl e)"
  by (cases x) (auto simp: parseTextOption_def Let_def split: sum.splits)

theorem parseTextOption_error_iff_witness:
  "parseTextOption (Text []) None = Inl TypeError"
  using parseTextOption_error_iff [of "Text []" None TypeError]
  by (simp add: textToLines16_examples)

text \<open>
  C35. Normalising is idempotent: the options returned, passed again as an array with
  the same default configuration, are returned unchanged.
\<close>

theorem parseTextOption_idem:
  assumes "parseTextOption x d = Inr opts"
  shows "parseTextOption (Texts (map Conf opts)) d = Inr opts"
  using assms
  by (cases x; cases d)
    (auto simp: parseTextOption_def with_defaults_idem comp_def split: sum.splits)

theorem parseTextOption_idem_witness:
  "parseTextOption (Texts (map Conf [with_defaults Map.empty (text_object (js_str ''a''))]))
     (Some Map.empty) = Inr [with_defaults Map.empty (text_object (js_str ''a''))]"
  using parseTextOption_idem [of "Texts [Line (js_str ''a'')]" "Some Map.empty"
      "[with_defaults Map.empty (text_object (js_str ''a''))]"]
  by (simp add: parseTextOption_def)

lemma parseTextOption_examples:
  "\<exists>opts. parseTextOption
       (Texts [Line (js_str ''a''), Conf [''text'' \<mapsto> Str (js_str ''b''), ''color'' \<mapsto> Str (js_str ''blue'')]])
       (Some [''color'' \<mapsto> Str (js_str ''green''), ''fontSize'' \<mapsto> Num (js_int 72)]) = Inr opts
     \<and> map (\<lambda>c. c ''color'') opts = [Some (Str (js_str ''green'')), Some (Str (js_str ''blue''))]
     \<and> map (\<lambda>c. c ''fontSize'') opts = [Some (Num (js_int 72)), Some (Num (js_int 72))]
     \<and> map (\<lambda>c. c ''strokeSize'') opts = [Some (Num (js_int 12)), Some (Num (js_int 12))]"
  by (simp add: parseTextOption_def with_defaults_apply preferred_def builtin_style_def
      text_object_def Let_def)

end
