(* ===== verification/Font_Cache.thy ===== *)
theory Font_Cache
  imports JS_String
begin

text \<open>
  The font cache of \<^verbatim>\<open>src/index.js\<close>: the module object \<^verbatim>\<open>t2sConfig\<close> with the
  configured font file, the file the cached instance was loaded from and the instance,
  and its two operations \<^verbatim>\<open>getT2s\<close> and \<^verbatim>\<open>setFont\<close>. The font library is a
  parameter: \<open>loadSync\<close> maps a path to the instance it loads or to the error it throws.
\<close>

section \<open>State\<close>

text \<open>\<^verbatim>\<open>t2sConfig\<close>; \<open>instance\<close> is \<open>None\<close> for \<^verbatim>\<open>null\<close>.\<close>

record 'f t2sConfig =
  fontfile :: js_string
  loadedFontfile :: js_string
  "instance" :: "'f option"

text \<open>\<^verbatim>\<open>TextToSVG.loadSync\<close>: the instance for a font file, or the error thrown.\<close>

type_synonym 'f loader = "js_string \<Rightarrow> js_error + 'f"

text \<open>
  The initial value of \<^verbatim>\<open>t2sConfig\<close>; the argument is the path
  \<^verbatim>\<open>resolve(__dirname, 'assets/font.ttf')\<close>.
\<close>

definition init_config :: "js_string \<Rightarrow> 'f t2sConfig" where
  "init_config default_font = \<lparr>fontfile = default_font, loadedFontfile = [], instance = None\<rparr>"

section \<open>Operations\<close>

text \<open>
  \<^verbatim>\<open>getT2s()\<close>: loads the configured file when there is no instance or the configured
  file is not the loaded one, and returns the instance. When loading throws, no
  assignment has run and the state is as before.
\<close>

definition getT2s :: "'f loader \<Rightarrow> 'f t2sConfig \<Rightarrow> js_error + ('f \<times> 'f t2sConfig)" where
  "getT2s loadSync c =
     (let reload = (case loadSync (fontfile c) of
                      Inl e \<Rightarrow> Inl e
                    | Inr f \<Rightarrow> Inr (f, c\<lparr>instance := Some f, loadedFontfile := fontfile c\<rparr>))
      in case instance c of
           None \<Rightarrow> reload
         | Some f \<Rightarrow> if fontfile c \<noteq> loadedFontfile c then reload else Inr (f, c))"

text \<open>\<^verbatim>\<open>setFont(fontpath)\<close>.\<close>

definition setFont :: "js_string \<Rightarrow> 'f t2sConfig \<Rightarrow> 'f t2sConfig" where
  "setFont fontpath c = c\<lparr>fontfile := fontpath\<rparr>"

section \<open>Runs\<close>

text \<open>
  The calls a client makes, and the state after a call: a call of \<^verbatim>\<open>getT2s\<close> that
  throws leaves the state as it is.
\<close>

datatype font_call = SetFont js_string | GetT2s

fun font_step :: "'f loader \<Rightarrow> 'f t2sConfig \<Rightarrow> font_call \<Rightarrow> 'f t2sConfig" where
  "font_step loadSync c (SetFont p) = setFont p c"
| "font_step loadSync c GetT2s = (case getT2s loadSync c of Inl e \<Rightarrow> c | Inr (f, c') \<Rightarrow> c')"

definition run_font :: "'f loader \<Rightarrow> js_string \<Rightarrow> font_call list \<Rightarrow> 'f t2sConfig" where
  "run_font loadSync default_font calls = foldl (font_step loadSync) (init_config default_font) calls"

text \<open>The states the module can be in.\<close>

inductive reachable :: "'f loader \<Rightarrow> js_string \<Rightarrow> 'f t2sConfig \<Rightarrow> bool"
  for loadSync :: "'f loader" and default_font :: js_string where
  init: "reachable loadSync default_font (init_config default_font)"
| step: "reachable loadSync default_font c \<Longrightarrow>
         reachable loadSync default_font (font_step loadSync c call)"

text \<open>
  The cache is coherent when the instance it holds, if any, is the one the loaded file
  gives.
\<close>

definition coherent :: "'f loader \<Rightarrow> 'f t2sConfig \<Rightarrow> bool" where
  "coherent loadSync c \<longleftrightarrow>
     (case instance c of None \<Rightarrow> True | Some f \<Rightarrow> loadSync (loadedFontfile c) = Inr f)"

text \<open>The font a client is promised: the one of the configured file.\<close>

definition current_font :: "'f loader \<Rightarrow> 'f t2sConfig \<Rightarrow> js_error + 'f" where
  "current_font loadSync c = loadSync (fontfile c)"

lemmas font_cache_defs [xibao_defs] =
  init_config_def getT2s_def setFont_def run_font_def coherent_def current_font_def

section \<open>The operations keep the cache coherent\<close>

lemma coherent_init [simp]: "coherent loadSync (init_config d)"
  by (simp add: coherent_def init_config_def)

lemma coherent_setFont [simp]: "coherent loadSync (setFont p c) = coherent loadSync c"
  by (simp add: coherent_def setFont_def split: option.split)

lemma getT2s_cases:
  obtains (cached) f where "instance c = Some f" "fontfile c = loadedFontfile c"
      "getT2s loadSync c = Inr (f, c)"
  | (loaded) f where "instance c = None \<or> fontfile c \<noteq> loadedFontfile c"
      "loadSync (fontfile c) = Inr f"
      "getT2s loadSync c = Inr (f, c\<lparr>instance := Some f, loadedFontfile := fontfile c\<rparr>)"
  | (failed) e where "instance c = None \<or> fontfile c \<noteq> loadedFontfile c"
      "loadSync (fontfile c) = Inl e" "getT2s loadSync c = Inl e"
  by (cases "instance c"; cases "loadSync (fontfile c)")
    (auto simp: getT2s_def split: if_splits)

lemma coherent_getT2s:
  assumes "coherent loadSync c" and "getT2s loadSync c = Inr (f, c')"
  shows "coherent loadSync c'"
  by (rule getT2s_cases [where c = c and loadSync = loadSync])
    (use assms in \<open>auto simp: coherent_def\<close>)

lemma coherent_step: "coherent loadSync c \<Longrightarrow> coherent loadSync (font_step loadSync c call)"
  by (cases call) (auto simp: coherent_getT2s split: sum.split)

lemma getT2s_current:
  assumes "coherent loadSync c"
  shows "map_sum id fst (getT2s loadSync c) = current_font loadSync c"
  by (rule getT2s_cases [where c = c and loadSync = loadSync])
    (use assms in \<open>auto simp: coherent_def current_font_def\<close>)

lemma getT2s_settled:
  assumes "getT2s loadSync c = Inr (f, c')"
  shows "instance c' = Some f" and "loadedFontfile c' = fontfile c'" and "fontfile c' = fontfile c"
  by (rule getT2s_cases [where c = c and loadSync = loadSync]; use assms in auto)+

lemma getT2s_cached:
  assumes "instance c = Some f" and "loadedFontfile c = fontfile c"
  shows "getT2s loadSync' c = Inr (f, c)"
  using assms by (simp add: getT2s_def)

section \<open>Reachable states are the states of runs\<close>

lemma reachable_coherent: "reachable loadSync d c \<Longrightarrow> coherent loadSync c"
  by (induction rule: reachable.induct) (simp_all add: coherent_step)

lemma reachable_run: "reachable loadSync d (run_font loadSync d calls)"
proof (induction calls rule: rev_induct)
  case Nil
  then show ?case by (simp add: run_font_def reachable.init)
next
  case (snoc call calls)
  then show ?case by (simp add: run_font_def reachable.step)
qed

lemma reachable_iff_run: "reachable loadSync d c \<longleftrightarrow> (\<exists>calls. c = run_font loadSync d calls)"
proof
  assume "reachable loadSync d c"
  then show "\<exists>calls. c = run_font loadSync d calls"
  proof (induction rule: reachable.induct)
    case init
    have "init_config d = run_font loadSync d []" by (simp add: run_font_def)
    then show ?case by blast
  next
    case (step c call)
    then obtain calls where "c = run_font loadSync d calls" by blast
    then have "font_step loadSync c call = run_font loadSync d (calls @ [call])"
      by (simp add: run_font_def)
    then show ?case by blast
  qed
qed (auto simp: reachable_run)

lemma font_step_GetT2s_error: "getT2s L c = Inl e \<Longrightarrow> font_step L c GetT2s = c"
  by simp

lemma font_step_GetT2s_ok: "getT2s L c = Inr (f, c') \<Longrightarrow> font_step L c GetT2s = c'"
  by simp

lemma getT2s_after_ok:
  assumes "getT2s L c = Inr (f, c')"
  shows "getT2s L c' = Inr (f, c')"
  using getT2s_settled [OF assms] by (intro getT2s_cached) simp_all

section \<open>Properties\<close>

text \<open>
  C13. In every state the module can reach, \<^verbatim>\<open>getT2s\<close> returns the instance of the
  configured font file, and throws exactly when loading that file throws: a client
  never gets the instance of a file configured earlier.
\<close>

theorem getT2s_returns_current:
  assumes "reachable loadSync d c"
  shows "map_sum id fst (getT2s loadSync c) = current_font loadSync c"
  using assms by (intro getT2s_current reachable_coherent)

theorem getT2s_returns_current_witness:
  "map_sum id fst (getT2s (\<lambda>p. if p = js_str ''a.ttf'' then Inr (1::nat) else Inl FontError)
     (run_font (\<lambda>p. if p = js_str ''a.ttf'' then Inr (1::nat) else Inl FontError)
        (js_str ''a.ttf'') [GetT2s, SetFont (js_str ''b.ttf'')])) = Inl FontError"
  using getT2s_returns_current [OF reachable_run,
      of "\<lambda>p. if p = js_str ''a.ttf'' then Inr (1::nat) else Inl FontError" "js_str ''a.ttf''" "[GetT2s, SetFont (js_str ''b.ttf'')]"]
  by (simp add: font_cache_defs js_str_def)

text \<open>
  C25. The instance is cached: after a call of \<^verbatim>\<open>getT2s\<close> that returns, the next call
  returns the same instance and leaves the state as it is without consulting the font
  library, whatever the library would load.
\<close>

theorem getT2s_no_reload:
  assumes "getT2s loadSync c = Inr (f, c')"
  shows "getT2s loadSync' c' = Inr (f, c')"
  using getT2s_settled [OF assms] by (intro getT2s_cached) simp_all

theorem getT2s_no_reload_witness:
  "getT2s (\<lambda>p. Inl FontError)
     \<lparr>fontfile = js_str ''a.ttf'', loadedFontfile = js_str ''a.ttf'', instance = Some (1::nat)\<rparr> =
   Inr (1, \<lparr>fontfile = js_str ''a.ttf'', loadedFontfile = js_str ''a.ttf'', instance = Some 1\<rparr>)"
  using getT2s_no_reload [of "\<lambda>p. if p = js_str ''a.ttf'' then Inr (1::nat) else Inl FontError" "init_config (js_str ''a.ttf'')" 1
      "\<lparr>fontfile = js_str ''a.ttf'', loadedFontfile = js_str ''a.ttf'', instance = Some 1\<rparr>"
      "\<lambda>p. Inl FontError"]
  by (simp add: font_cache_defs)

text \<open>
  C33. After \<^verbatim>\<open>setFont(p)\<close> in a reachable state, \<^verbatim>\<open>getT2s\<close> returns what the font
  library loads from \<open>p\<close>, or throws its error.
\<close>

theorem setFont_then_getT2s:
  assumes "reachable loadSync d c"
  shows "map_sum id fst (getT2s loadSync (setFont p c)) = loadSync p"
  using getT2s_current [of loadSync "setFont p c"] reachable_coherent [OF assms]
  by (simp add: current_font_def) (simp add: setFont_def)

theorem setFont_then_getT2s_witness:
  "map_sum id fst (getT2s (\<lambda>p. if p = js_str ''a.ttf'' then Inr (1::nat) else Inl FontError)
     (setFont (js_str ''a.ttf'')
        (run_font (\<lambda>p. if p = js_str ''a.ttf'' then Inr (1::nat) else Inl FontError)
           (js_str ''c.ttf'') [GetT2s]))) = Inr 1"
  using setFont_then_getT2s [OF reachable_run
      [of "\<lambda>p. if p = js_str ''a.ttf'' then Inr (1::nat) else Inl FontError"
        "js_str ''c.ttf''" "[GetT2s]"], of "js_str ''a.ttf''"]
  by simp

text \<open>
  C34. Every run of calls of \<^verbatim>\<open>setFont\<close> and \<^verbatim>\<open>getT2s\<close> from the initial state ends in
  a state whose cached instance, if there is one, is the instance of the file recorded
  as loaded.
\<close>

theorem run_font_coherent: "coherent loadSync (run_font loadSync d calls)"
  by (rule reachable_coherent [OF reachable_run])

end
