(* ===== verification/Text_Svg.thy ===== *)
theory Text_Svg
  imports Font_Cache Layout Text_Option
begin

text \<open>
  The glyph renderer, \<^verbatim>\<open>textSvg\<close> of \<^verbatim>\<open>src/index.js\<close>: it asks the font library for
  the drawing of a text, reads the width and the height from the attributes of the
  drawing with two regular expressions, adds the stroke size to the width and
  patches the width attribute. The font library is a parameter (\<open>getSVG\<close>); what is
  modelled is the request sent to it and the string processing of its answer:
  \<^verbatim>\<open>match\<close> with \<^verbatim>\<open>/width="(\d+)/\<close>, \<^verbatim>\<open>parseInt\<close>, the conversion of a number to a
  string in the template literal, and \<^verbatim>\<open>replace\<close> with a string pattern.
\<close>

section \<open>Decimal digits\<close>

definition is_digit :: "u16 \<Rightarrow> bool" where
  "is_digit c \<longleftrightarrow> 0x30 \<le> c \<and> c \<le> 0x39"

definition digit_val :: "u16 \<Rightarrow> nat" where
  "digit_val c = unat c - 48"

definition digit_char :: "nat \<Rightarrow> u16" where
  "digit_char d = of_nat (48 + d)"

text \<open>The value of a string of digits, as \<^verbatim>\<open>parseInt\<close> reads it.\<close>

definition parse_digits :: "js_string \<Rightarrow> nat" where
  "parse_digits ds = foldl (\<lambda>n c. 10 * n + digit_val c) 0 ds"

text \<open>The decimal digits of a natural number, without leading zeros.\<close>

fun dec :: "nat \<Rightarrow> js_string" where
  "dec n = (if n < 10 then [digit_char n] else dec (n div 10) @ [digit_char (n mod 10)])"

declare dec.simps [simp del]

section \<open>The regular expressions\<close>

text \<open>
  \<^verbatim>\<open>s.match(/key(\d+)/)?.[1]\<close> for a literal \<open>key\<close>: the expression matches at the
  start of a string that begins with the key and a digit; the result is the digits
  after the leftmost occurrence of the key that is followed by a digit, as many as
  there are; \<open>None\<close> is \<^verbatim>\<open>undefined\<close>, the value when nothing matches.
\<close>

definition matches_at :: "js_string \<Rightarrow> js_string \<Rightarrow> bool" where
  "matches_at key s \<longleftrightarrow> prefix key s \<and> takeWhile is_digit (drop (length key) s) \<noteq> []"

fun match_digits :: "js_string \<Rightarrow> js_string \<Rightarrow> js_string option" where
  "match_digits key [] = None"
| "match_digits key (c # cs) =
     (if matches_at key (c # cs) then Some (takeWhile is_digit (drop (length key) (c # cs)))
      else match_digits key cs)"

text \<open>The keys of the two expressions: \<^verbatim>\<open>width="\<close> and \<^verbatim>\<open>height="\<close>.\<close>

definition width_key :: js_string where
  "width_key = js_str ''width='' @ [0x22]"

definition height_key :: js_string where
  "height_key = js_str ''height='' @ [0x22]"

text \<open>
  \<^verbatim>\<open>parseInt\<close> on the result of the match: \<^verbatim>\<open>NaN\<close> for \<^verbatim>\<open>undefined\<close>, else the number
  nearest to the value of the digits.
\<close>

definition js_parseInt :: "js_string option \<Rightarrow> js_number" where
  "js_parseInt m =
     (case m of None \<Rightarrow> NaN
      | Some ds \<Rightarrow> (if parse_digits ds = 0 then Fin 0 else round_double (of_nat (parse_digits ds))))"

section \<open>Numbers in template literals\<close>

text \<open>
  The string of a number, for the numbers whose string needs no search for the
  shortest digits: \<^verbatim>\<open>NaN\<close>, the infinities, and the integers below \<open>10\<^sup>2\<^sup>1\<close>, which are
  written in decimal digits. \<open>None\<close> stands for the other numbers, whose conversion is
  not modelled.
\<close>

definition number_to_string :: "js_number \<Rightarrow> js_string option" where
  "number_to_string x =
     (case x of
        NaN \<Rightarrow> Some (js_str ''NaN'')
      | PInf \<Rightarrow> Some (js_str ''Infinity'')
      | NInf \<Rightarrow> Some (js_str ''-Infinity'')
      | NegZero \<Rightarrow> Some (js_str ''0'')
      | Fin r \<Rightarrow>
          (if of_int \<lfloor>r\<rfloor> = r \<and> \<bar>r\<bar> < 10 ^ 21
           then Some ((if r < 0 then js_str ''-'' else []) @ dec (nat \<bar>\<lfloor>r\<rfloor>\<bar>))
           else None))"

section \<open>Replacing\<close>

text \<open>
  \<^verbatim>\<open>s.replace(pat, rep)\<close> for a string pattern: the leftmost occurrence of the pattern
  is replaced. The replacement is taken literally; the replacements of \<^verbatim>\<open>textSvg\<close>
  contain no \<^verbatim>\<open>$\<close>.
\<close>

fun replace_first :: "js_string \<Rightarrow> js_string \<Rightarrow> js_string \<Rightarrow> js_string" where
  "replace_first pat rep [] = (if pat = [] then rep else [])"
| "replace_first pat rep (c # cs) =
     (if prefix pat (c # cs) then rep @ drop (length pat) (c # cs)
      else c # replace_first pat rep cs)"

section \<open>The request and the renderer\<close>

text \<open>The argument \<^verbatim>\<open>option\<close> of \<^verbatim>\<open>textSvg\<close>, typed as its documentation says.\<close>

record svg_option =
  opt_text :: js_string
  opt_fontSize :: js_number
  opt_color :: js_string
  opt_strokeSize :: js_number
  opt_strokeColor :: js_string

text \<open>
  The destructuring of a normalised option. Options whose properties have other types
  than the documented ones are outside the model (\<open>None\<close>).
\<close>

definition read_option :: "js_object \<Rightarrow> svg_option option" where
  "read_option conf =
     (case (conf ''text'', conf ''fontSize'', conf ''color'', conf ''strokeSize'',
            conf ''strokeColor'') of
        (Some (Str t), Some (Num fs), Some (Str c), Some (Num ss), Some (Str sc)) \<Rightarrow>
          Some \<lparr>opt_text = t, opt_fontSize = fs, opt_color = c, opt_strokeSize = ss,
                opt_strokeColor = sc\<rparr>
      | _ \<Rightarrow> None)"

text \<open>The options passed to \<^verbatim>\<open>t2s.getSVG\<close>.\<close>

record svg_request =
  req_fontSize :: js_number
  req_x :: js_number
  req_y :: js_number
  req_anchor :: js_string
  req_fill :: js_string
  req_stroke :: js_string
  req_stroke_width :: js_number
  req_paint_order :: js_string

definition request_of :: "svg_option \<Rightarrow> svg_request" where
  "request_of opt =
     \<lparr>req_fontSize = opt_fontSize opt,
      req_x = js_ceil (js_div (opt_strokeSize opt) (js_int 2)),
      req_y = js_int 0,
      req_anchor = js_str ''top'',
      req_fill = opt_color opt,
      req_stroke = opt_strokeColor opt,
      req_stroke_width = opt_strokeSize opt,
      req_paint_order = js_str ''stroke''\<rparr>"

text \<open>\<^verbatim>\<open>t2s.getSVG(text, options)\<close>: the drawing the font library returns.\<close>

type_synonym 'f renderer = "'f \<Rightarrow> js_string \<Rightarrow> svg_request \<Rightarrow> js_string"

text \<open>
  The part of \<^verbatim>\<open>textSvg\<close> after the call of \<^verbatim>\<open>getSVG\<close>: the sizes read from the
  drawing, and the box returned. \<open>None\<close> when a number of the template literals is
  outside the modelled conversion.
\<close>

definition patch_svg :: "js_number \<Rightarrow> js_string \<Rightarrow> svg_box option" where
  "patch_svg strokeSize s =
     (let w = js_parseInt (match_digits width_key s);
          h = js_parseInt (match_digits height_key s)
      in case (number_to_string w, number_to_string (js_add w strokeSize)) of
           (Some old, Some new) \<Rightarrow>
             Some \<lparr>width = js_add w strokeSize, height = h,
                   svg = replace_first (width_key @ old) (width_key @ new) s\<rparr>
         | _ \<Rightarrow> None)"

text \<open>
  \<^verbatim>\<open>textSvg(option)\<close> in the state \<open>c\<close> of the font cache, with the state after the
  call: \<^verbatim>\<open>getT2s\<close> runs first and its error is passed on; then the drawing is
  requested for the properties of the option and patched. \<open>None\<close> when the option or
  a number is outside the model.
\<close>

definition textSvg ::
  "'f loader \<Rightarrow> 'f renderer \<Rightarrow> 'f t2sConfig \<Rightarrow> js_object
    \<Rightarrow> ((js_error + svg_box) \<times> 'f t2sConfig) option" where
  "textSvg loadSync getSVG c conf =
     (case getT2s loadSync c of
        Inl e \<Rightarrow> Some (Inl e, c)
      | Inr (t2s, c') \<Rightarrow>
          (case read_option conf of
             None \<Rightarrow> None
           | Some opt \<Rightarrow>
               (case patch_svg (opt_strokeSize opt)
                       (getSVG t2s (opt_text opt) (request_of opt)) of
                  None \<Rightarrow> None
                | Some box \<Rightarrow> Some (Inr box, c'))))"

section \<open>Specification\<close>

text \<open>
  A string of digits is canonical when it is the decimal notation of its value: it has
  no leading zero. \<open>no_match key pre rest\<close> says that the expression for \<open>key\<close> matches
  nowhere in \<open>pre @ rest\<close> at a position inside \<open>pre\<close>.
\<close>

definition canonical :: "js_string \<Rightarrow> bool" where
  "canonical ds \<longleftrightarrow> ds \<noteq> [] \<and> list_all is_digit ds \<and> (hd ds = 0x30 \<longrightarrow> ds = [0x30])"

fun no_match :: "js_string \<Rightarrow> js_string \<Rightarrow> js_string \<Rightarrow> bool" where
  "no_match key [] rest = True"
| "no_match key (a # pre) rest = (\<not> matches_at key (a # pre @ rest) \<and> no_match key pre rest)"

text \<open>
  A drawing as the font library returns it, for the examples: the width
  \<^verbatim>\<open>100.25\<close>, the height \<^verbatim>\<open>50.5\<close> and a path with a stroke width.
\<close>

text \<open>
  A drawing whose \<^verbatim>\<open>width\<close> attribute, if it has one, is an integer of at most
  \<open>2\<^sup>5\<^sup>2\<close>: the sizes a renderer reports for a line of text.
\<close>

definition width_bounded :: "js_string \<Rightarrow> bool" where
  "width_bounded s \<longleftrightarrow>
     (case match_digits width_key s of None \<Rightarrow> True | Some ds \<Rightarrow> parse_digits ds \<le> 2 ^ 52)"

abbreviation example_svg :: js_string where
  "example_svg \<equiv>
     js_str ''<svg width='' @ 0x22 # js_str ''100.25'' @ 0x22 # js_str '' height='' @ 0x22 #
     js_str ''50.5'' @ 0x22 # js_str ''><path stroke-width='' @ 0x22 # js_str ''12'' @ 0x22 #
     js_str ''/></svg>''"

text \<open>The same drawing with the width \<^verbatim>\<open>112.25\<close>.\<close>

abbreviation example_patched :: js_string where
  "example_patched \<equiv>
     js_str ''<svg width='' @ 0x22 # js_str ''112.25'' @ 0x22 # js_str '' height='' @ 0x22 #
     js_str ''50.5'' @ 0x22 # js_str ''><path stroke-width='' @ 0x22 # js_str ''12'' @ 0x22 #
     js_str ''/></svg>''"

lemmas text_svg_defs [xibao_defs] =
  is_digit_def digit_val_def digit_char_def parse_digits_def width_key_def height_key_def
  js_parseInt_def number_to_string_def read_option_def request_of_def patch_svg_def
  textSvg_def

section \<open>Digits and their values\<close>

lemma digit_val_less: "is_digit c \<Longrightarrow> digit_val c < 10"
  by (auto simp: is_digit_def digit_val_def word_le_nat_alt)

lemma unat_digit_char: "d < 10 \<Longrightarrow> unat (digit_char d) = 48 + d"
  unfolding digit_char_def by (subst unat_of_nat) simp

lemma digit_char_val: "is_digit c \<Longrightarrow> digit_char (digit_val c) = c"
  by (simp add: is_digit_def digit_val_def digit_char_def word_le_nat_alt)

lemma digit_val_char: "d < 10 \<Longrightarrow> digit_val (digit_char d) = d"
  by (simp add: digit_val_def unat_digit_char)

lemma is_digit_char: "d < 10 \<Longrightarrow> is_digit (digit_char d)"
  by (simp add: is_digit_def word_le_nat_alt unat_digit_char)

lemma digit_val_zero_iff: "is_digit c \<Longrightarrow> digit_val c = 0 \<longleftrightarrow> c = 0x30"
  by (auto simp: is_digit_def digit_val_def word_le_nat_alt word_unat_eq_iff)

lemma parse_digits_simps [simp]:
  "parse_digits [] = 0"
  "parse_digits [c] = digit_val c"
  "parse_digits (ds @ [c]) = 10 * parse_digits ds + digit_val c"
  by (simp_all add: parse_digits_def)

lemma dec_nonempty [simp]: "dec n \<noteq> []"
  by (subst dec.simps) simp

lemma dec_digits: "list_all is_digit (dec n)"
proof (induction n rule: dec.induct)
  case (1 n)
  then show ?case by (subst dec.simps) (simp add: is_digit_char)
qed

lemma parse_digits_dec: "parse_digits (dec n) = n"
proof (induction n rule: dec.induct)
  case (1 n)
  show ?case
  proof (cases "n < 10")
    case True
    then show ?thesis by (subst dec.simps) (simp add: digit_val_char)
  next
    case False
    then have "parse_digits (dec n) = 10 * parse_digits (dec (n div 10)) + digit_val (digit_char (n mod 10))"
      by (subst dec.simps) simp
    with False 1 show ?thesis by (simp add: digit_val_char)
  qed
qed

lemma canonical_snoc:
  assumes "canonical (ds @ [c])" and "ds \<noteq> []"
  shows "canonical ds" and "hd ds \<noteq> 0x30" and "is_digit c"
  using assms by (auto simp: canonical_def hd_append)

lemma parse_digits_pos:
  assumes "list_all is_digit ds" and "ds \<noteq> []" and "hd ds \<noteq> 0x30"
  shows "0 < parse_digits ds"
  using assms
proof (induction ds rule: rev_induct)
  case Nil
  then show ?case by simp
next
  case (snoc c ds)
  then show ?case using digit_val_zero_iff [of c] by (cases "ds = []") (auto simp: hd_append)
qed

lemma dec_parse_digits: "canonical ds \<Longrightarrow> dec (parse_digits ds) = ds"
proof (induction ds rule: rev_induct)
  case Nil
  then show ?case by (simp add: canonical_def)
next
  case (snoc c ds)
  show ?case
  proof (cases "ds = []")
    case True
    with snoc.prems show ?thesis
      by (subst dec.simps) (simp add: canonical_def digit_val_less digit_char_val)
  next
    case False
    note c = canonical_snoc [OF snoc.prems False]
    from c have "0 < parse_digits ds" by (intro parse_digits_pos) (simp_all add: canonical_def False)
    moreover from c have "digit_val c < 10" by (simp add: digit_val_less)
    ultimately have "dec (parse_digits (ds @ [c])) = dec (parse_digits ds) @ [digit_char (digit_val c)]"
      by (subst dec.simps) simp
    with c snoc.IH show ?thesis by (simp add: digit_char_val)
  qed
qed

section \<open>The leftmost match\<close>

lemma matches_at_key_digits:
  assumes "ds \<noteq> []" and "list_all is_digit ds"
  shows "matches_at key (key @ ds @ post)"
  using assms by (cases ds) (simp_all add: matches_at_def)

lemma takeWhile_digits:
  assumes "list_all is_digit ds" and "post = [] \<or> \<not> is_digit (hd post)"
  shows "takeWhile is_digit (ds @ post) = ds"
  using assms by (cases post) (auto simp: takeWhile_append list_all_iff)

lemma match_digits_at:
  "matches_at key s \<Longrightarrow> match_digits key s = Some (takeWhile is_digit (drop (length key) s))"
  by (cases s) (simp_all add: matches_at_def)

lemma match_digits_leftmost:
  assumes "no_match key pre (key @ ds @ post)" and "ds \<noteq> []" and "list_all is_digit ds"
    and "post = [] \<or> \<not> is_digit (hd post)" and "key \<noteq> []"
  shows "match_digits key (pre @ key @ ds @ post) = Some ds"
  using assms
proof (induction pre)
  case Nil
  then show ?case
    using match_digits_at [OF matches_at_key_digits [of ds key post]]
    by (simp add: takeWhile_digits)
next
  case (Cons a pre)
  then show ?case by simp
qed

lemma match_digits_SomeD:
  assumes "match_digits key s = Some ds"
  shows "\<exists>pre post. s = pre @ key @ ds @ post \<and> no_match key pre (key @ ds @ post) \<and> ds \<noteq> []
           \<and> list_all is_digit ds \<and> (post = [] \<or> \<not> is_digit (hd post))"
  using assms
proof (induction s)
  case Nil
  then show ?case by simp
next
  case (Cons c cs)
  show ?case
  proof (cases "matches_at key (c # cs)")
    case True
    let ?rest = "drop (length key) (c # cs)"
    from True Cons.prems have ds: "ds = takeWhile is_digit ?rest" and "ds \<noteq> []"
      by (simp_all add: matches_at_def)
    moreover from True have "c # cs = key @ ?rest"
      by (auto simp: matches_at_def prefix_def)
    moreover have "?rest = ds @ dropWhile is_digit ?rest" by (simp add: ds)
    ultimately have "c # cs = [] @ key @ ds @ dropWhile is_digit ?rest" by simp
    moreover have "list_all is_digit ds" by (auto simp: ds list_all_iff dest: set_takeWhileD)
    moreover have "dropWhile is_digit ?rest = [] \<or> \<not> is_digit (hd (dropWhile is_digit ?rest))"
      using hd_dropWhile [of is_digit ?rest] by blast
    ultimately show ?thesis using \<open>ds \<noteq> []\<close> no_match.simps(1) by blast
  next
    case False
    with Cons.prems have "match_digits key cs = Some ds" by simp
    from Cons.IH [OF this] obtain pre post where
      "cs = pre @ key @ ds @ post" "no_match key pre (key @ ds @ post)" "ds \<noteq> []"
      "list_all is_digit ds" "post = [] \<or> \<not> is_digit (hd post)" by blast
    with False have "c # cs = (c # pre) @ key @ ds @ post"
      and "no_match key (c # pre) (key @ ds @ post)"
      by simp_all
    with \<open>ds \<noteq> []\<close> \<open>list_all is_digit ds\<close> \<open>post = [] \<or> \<not> is_digit (hd post)\<close>
    show ?thesis by blast
  qed
qed

lemma matches_at_take: "matches_at key s \<longleftrightarrow> matches_at key (take (Suc (length key)) s)"
proof -
  have "takeWhile is_digit (drop (length key) s) \<noteq> [] \<longleftrightarrow>
        takeWhile is_digit (take 1 (drop (length key) s)) \<noteq> []"
    by (cases "drop (length key) s") simp_all
  moreover have "prefix key s \<longleftrightarrow> prefix key (take (Suc (length key)) s)"
  proof
    assume "prefix key s"
    then obtain r where "s = key @ r" by (auto simp: prefix_def)
    then show "prefix key (take (Suc (length key)) s)" by simp
  next
    assume "prefix key (take (Suc (length key)) s)"
    then show "prefix key s" using take_is_prefix prefix_order.trans by blast
  qed
  ultimately show ?thesis by (simp add: matches_at_def drop_take)
qed

lemma no_match_rest: "no_match key pre (key @ x) \<longleftrightarrow> no_match key pre (key @ y)"
proof (induction pre)
  case Nil
  then show ?case by simp
next
  case (Cons a pre)
  have "take (Suc (length key)) (a # pre @ key @ x) = take (Suc (length key)) (a # pre @ key @ y)"
    by simp
  then have "matches_at key (a # pre @ key @ x) \<longleftrightarrow> matches_at key (a # pre @ key @ y)"
    using matches_at_take [of key "a # pre @ key @ x"] matches_at_take [of key "a # pre @ key @ y"]
    by simp
  with Cons show ?case by simp
qed

section \<open>Replacing the leftmost match\<close>

lemma replace_first_prefix:
  "pat \<noteq> [] \<Longrightarrow> prefix pat s \<Longrightarrow> replace_first pat rep s = rep @ drop (length pat) s"
  by (cases s) simp_all

lemma prefix_key_digits:
  assumes "prefix (key @ ds) s" and "ds \<noteq> []" and "list_all is_digit ds"
  shows "matches_at key s"
proof -
  from assms(1) obtain r where "s = key @ ds @ r" by (auto simp: prefix_def)
  with assms(2,3) show ?thesis by (simp add: matches_at_key_digits)
qed

lemma replace_first_leftmost:
  assumes "no_match key pre (key @ ds @ post)" and "ds \<noteq> []" and "list_all is_digit ds"
  shows "replace_first (key @ ds) rep (pre @ key @ ds @ post) = pre @ rep @ post"
  using assms
proof (induction pre)
  case Nil
  then show ?case using replace_first_prefix [of "key @ ds" "key @ ds @ post" rep] by simp
next
  case (Cons a pre)
  then have "\<not> prefix (key @ ds) (a # pre @ key @ ds @ post)"
    using prefix_key_digits [of key ds "a # pre @ key @ ds @ post"] by auto
  with Cons show ?case by simp
qed

section \<open>Patching the width\<close>

lemma js_parseInt_Some:
  "parse_digits ds \<le> 2 ^ 53 \<Longrightarrow> js_parseInt (Some ds) = js_int (int (parse_digits ds))"
  using round_double_int [of "int (parse_digits ds)"]
  by (auto simp: js_parseInt_def js_int_def)

lemma number_to_string_int:
  "0 \<le> n \<Longrightarrow> n < 10 ^ 21 \<Longrightarrow> number_to_string (js_int n) = Some (dec (nat n))"
  by (simp add: number_to_string_def js_int_def)

lemma width_key_nonempty [simp]: "width_key \<noteq> []"
  by (simp add: width_key_def)

lemma patch_svg_decomposed:
  assumes "no_match width_key pre (width_key @ ds @ post)" and "canonical ds"
    and "post = [] \<or> \<not> is_digit (hd post)"
    and "0 \<le> k" and "int (parse_digits ds) + k \<le> 2 ^ 53"
  shows "patch_svg (js_int k) (pre @ width_key @ ds @ post) =
         Some \<lparr>width = js_int (int (parse_digits ds) + k),
               height = js_parseInt (match_digits height_key (pre @ width_key @ ds @ post)),
               svg = pre @ width_key @ dec (nat (int (parse_digits ds) + k)) @ post\<rparr>"
proof -
  let ?s = "pre @ width_key @ ds @ post" and ?n = "int (parse_digits ds)"
  from assms(2) have ds: "ds \<noteq> []" "list_all is_digit ds" by (simp_all add: canonical_def)
  with assms have m: "match_digits width_key ?s = Some ds" by (intro match_digits_leftmost) simp_all
  from assms have w: "js_parseInt (Some ds) = js_int ?n" by (intro js_parseInt_Some) simp
  from assms have sum: "js_add (js_int ?n) (js_int k) = js_int (?n + k)" by (intro js_add_int) simp
  have "(2::int) ^ 53 < 10 ^ 21" by simp
  with assms have "number_to_string (js_int ?n) = Some ds"
    and "number_to_string (js_int (?n + k)) = Some (dec (nat (?n + k)))"
    by (simp_all add: number_to_string_int dec_parse_digits)
  moreover have "replace_first (width_key @ ds) (width_key @ dec (nat (?n + k))) ?s =
      pre @ (width_key @ dec (nat (?n + k))) @ post"
    using assms(1) ds by (rule replace_first_leftmost)
  ultimately show ?thesis by (simp add: patch_svg_def m w sum)
qed

text \<open>On such a drawing the patch is defined, whatever the drawing is.\<close>

lemma patch_svg_total:
  assumes "width_bounded s" and "0 \<le> k" and "k \<le> 2 ^ 52"
  shows "patch_svg (js_int k) s \<noteq> None"
proof (cases "match_digits width_key s")
  case None
  then show ?thesis
    by (simp add: patch_svg_def js_parseInt_def number_to_string_def js_add_def Let_def)
next
  case (Some ds)
  let ?n = "int (parse_digits ds)"
  from Some assms(1) have n: "parse_digits ds \<le> 2 ^ 52" by (simp add: width_bounded_def)
  then have "?n \<le> 2 ^ 52" by (metis of_nat_le_iff of_nat_numeral of_nat_power)
  with assms(2,3) have b: "\<bar>?n + k\<bar> \<le> 2 ^ 53" "?n < 10 ^ 21" "?n + k < 10 ^ 21" "0 \<le> ?n + k"
    by simp_all
  from n have "parse_digits ds \<le> 2 ^ 53" by simp
  then have "js_parseInt (Some ds) = js_int ?n" by (rule js_parseInt_Some)
  with b Some show ?thesis
    by (simp add: patch_svg_def Let_def js_add_int number_to_string_int)
qed

text \<open>
  \<^verbatim>\<open>parseInt\<close> and the conversion of a number to a string are inverse on canonical
  digits of value at most \<open>2\<^sup>5\<^sup>3\<close>.
\<close>

lemma number_to_string_parseInt:
  assumes "canonical ds" and "parse_digits ds \<le> 2 ^ 53"
  shows "number_to_string (js_parseInt (Some ds)) = Some ds"
proof -
  from assms(2) have "int (parse_digits ds) \<le> int (2 ^ 53)" by (simp only: of_nat_le_iff)
  then have "int (parse_digits ds) < 10 ^ 21" by simp
  with assms show ?thesis
    by (simp add: js_parseInt_Some number_to_string_int dec_parse_digits)
qed

section \<open>The calls of the renderer\<close>

lemma textSvg_error: "getT2s L c = Inl e \<Longrightarrow> textSvg L G c conf = Some (Inl e, c)"
  by (simp add: textSvg_def)

lemma textSvg_cases:
  assumes "textSvg L G c conf = Some (r, c')"
  obtains (error) e where "getT2s L c = Inl e" "r = Inl e" "c' = c"
  | (drawn) f opt box where "getT2s L c = Inr (f, c')" "read_option conf = Some opt"
      "patch_svg (opt_strokeSize opt) (G f (opt_text opt) (request_of opt)) = Some box"
      "r = Inr box"
  using assms by (auto simp: textSvg_def split: sum.splits option.splits)

lemma textSvg_state:
  assumes "textSvg L G c conf = Some (r, c')"
  shows "c' = font_step L c GetT2s"
  using assms by (rule textSvg_cases) simp_all

section \<open>Examples\<close>

lemma example_svg_facts:
  "match_digits width_key example_svg = Some (js_str ''100'')"
  "match_digits height_key example_svg = Some (js_str ''50'')"
  "canonical (js_str ''100'')"
  "parse_digits (js_str ''100'') = 100"
  "canonical (js_str ''1292'')"
  "parse_digits (js_str ''1292'') = 1292"
  by code_simp+

lemma example_strings:
  "replace_first (width_key @ js_str ''100'') (width_key @ js_str ''112'') example_svg = example_patched"
  "parse_digits (js_str ''50'') = 50"
  "dec 100 = js_str ''100''"
  "dec 112 = js_str ''112''"
  by code_simp+

lemma patch_example:
  "patch_svg (js_int 12) example_svg =
     Some (int_box (112, 50, example_patched))"
proof -
  have "js_parseInt (Some (js_str ''100'')) = js_int 100" "js_parseInt (Some (js_str ''50'')) = js_int 50"
    using js_parseInt_Some [of "js_str ''100''"] js_parseInt_Some [of "js_str ''50''"]
    by (simp_all add: example_svg_facts example_strings)
  moreover have "js_add (js_int 100) (js_int 12) = js_int 112" by (simp add: js_add_int)
  moreover have "number_to_string (js_int 100) = Some (js_str ''100'')"
    "number_to_string (js_int 112) = Some (js_str ''112'')"
    by (simp_all add: number_to_string_int example_strings)
  ultimately show ?thesis
    by (simp only: patch_svg_def Let_def example_svg_facts example_strings int_box_def
        prod.case option.case)
qed

lemma request_default:
  "request_of \<lparr>opt_text = t, opt_fontSize = js_int 108, opt_color = c,
     opt_strokeSize = js_int 12, opt_strokeColor = sc\<rparr> =
   \<lparr>req_fontSize = js_int 108, req_x = js_int 6, req_y = js_int 0, req_anchor = js_str ''top'',
    req_fill = c, req_stroke = sc, req_stroke_width = js_int 12,
    req_paint_order = js_str ''stroke''\<rparr>"
  by (simp add: request_of_def js_eval)

section \<open>Properties\<close>

text \<open>
  C10. The patched drawing declares the returned width: when the width attribute of the
  drawing starts with a canonical string of digits of value \<open>n\<close> and the stroke size is
  an integer \<open>k \<ge> 0\<close> with \<open>n + k \<le> 2\<^sup>5\<^sup>3\<close>, \<^verbatim>\<open>textSvg\<close> returns the width \<open>n + k\<close>, and
  reading the width of the returned drawing with the same regular expression gives
  \<open>n + k\<close> again.
\<close>

theorem patch_svg_declares_width:
  assumes "match_digits width_key s = Some ds" and "canonical ds"
    and "0 \<le> k" and "int (parse_digits ds) + k \<le> 2 ^ 53"
  shows "\<exists>box. patch_svg (js_int k) s = Some box
           \<and> width box = js_int (int (parse_digits ds) + k)
           \<and> js_parseInt (match_digits width_key (svg box)) = width box"
proof -
  let ?n = "int (parse_digits ds) + k"
  from match_digits_SomeD [OF assms(1)] obtain pre post where
    s: "s = pre @ width_key @ ds @ post" and nm: "no_match width_key pre (width_key @ ds @ post)"
    and post: "post = [] \<or> \<not> is_digit (hd post)" by blast
  from nm have "no_match width_key pre (width_key @ dec (nat ?n) @ post)"
    using no_match_rest by blast
  with post have "match_digits width_key (pre @ width_key @ dec (nat ?n) @ post) = Some (dec (nat ?n))"
    by (intro match_digits_leftmost) (simp_all add: dec_digits)
  moreover from assms have "js_parseInt (Some (dec (nat ?n))) = js_int ?n"
    using js_parseInt_Some [of "dec (nat ?n)"] by (simp add: parse_digits_dec)
  ultimately show ?thesis
    using patch_svg_decomposed [OF nm assms(2) post assms(3,4)] by (simp add: s)
qed

theorem patch_svg_declares_width_witness:
  "\<exists>box. patch_svg (js_int 12) example_svg = Some box \<and> width box = js_int 112
     \<and> js_parseInt (match_digits width_key (svg box)) = width box"
  using patch_svg_declares_width [OF example_svg_facts(1,3), of 12]
  by (simp add: example_svg_facts(4))

text \<open>
  C21. The regular expression \<^verbatim>\<open>/key(\d+)/\<close> is matched as the language defines it: the
  result is \<open>ds\<close> exactly when the string is \<open>pre @ key @ ds @ post\<close> with \<open>ds\<close> a
  non-empty string of digits, \<open>post\<close> not starting with a digit (the digits are taken
  greedily) and no match at a position inside \<open>pre\<close> (the match is the leftmost).
\<close>

theorem match_digits_iff:
  assumes "key \<noteq> []"
  shows "match_digits key s = Some ds \<longleftrightarrow>
         (\<exists>pre post. s = pre @ key @ ds @ post \<and> no_match key pre (key @ ds @ post) \<and> ds \<noteq> []
            \<and> list_all is_digit ds \<and> (post = [] \<or> \<not> is_digit (hd post)))"
  using assms match_digits_SomeD [of key s ds] match_digits_leftmost [of key _ ds] by blast

theorem match_digits_iff_witness:
  "\<exists>pre post. example_svg = pre @ width_key @ js_str ''100'' @ post
     \<and> no_match width_key pre (width_key @ js_str ''100'' @ post)
     \<and> (post = [] \<or> \<not> is_digit (hd post))"
  using iffD1 [OF match_digits_iff [OF width_key_nonempty] example_svg_facts(1)]
  by blast

end
