(* ===== verification/Pipeline.thy ===== *)
theory Pipeline
  imports Text_Svg
begin

text \<open>
  The exported functions \<^verbatim>\<open>custom\<close>, \<^verbatim>\<open>xibao\<close> and \<^verbatim>\<open>beibao\<close> of \<^verbatim>\<open>src/index.js\<close> and
  the two canvas sizes: the options are normalised, every option is drawn in turn
  (the font cache is threaded through the calls of \<^verbatim>\<open>textSvg\<close>), and the boxes are laid
  out. A result is the plan or the exception, with the state of the font cache after
  the call; \<open>None\<close> when an option or a number is outside the model.
\<close>

section \<open>Presets\<close>

record canvas_size =
  size_width :: js_number
  size_height :: js_number

definition xibaoSize :: canvas_size where
  "xibaoSize = \<lparr>size_width = js_int 1292, size_height = js_int 968\<rparr>"

definition beibaoSize :: canvas_size where
  "beibaoSize = \<lparr>size_width = js_int 1300, size_height = js_int 974\<rparr>"

text \<open>
  The files of the package: the values of \<^verbatim>\<open>resolve(__dirname, 'assets/font.ttf')\<close>,
  \<^verbatim>\<open>resolve(__dirname, 'assets/xibao.webp')\<close> and
  \<^verbatim>\<open>resolve(__dirname, 'assets/beibao.webp')\<close>.
\<close>

record assets =
  font_file :: js_string
  xibao_file :: js_string
  beibao_file :: js_string

text \<open>The default configurations \<^verbatim>\<open>xibao\<close> and \<^verbatim>\<open>beibao\<close> pass to \<^verbatim>\<open>custom\<close>.\<close>

definition xibao_config :: js_object where
  "xibao_config =
     [''color'' \<mapsto> Str (js_str ''red''), ''strokeColor'' \<mapsto> Str (js_str ''#fcf88d''),
      ''strokeSize'' \<mapsto> Num (js_int 12), ''fontSize'' \<mapsto> Num (js_int 108)]"

definition beibao_config :: js_object where
  "beibao_config =
     [''color'' \<mapsto> Str (js_str ''#2d2d2d''), ''strokeColor'' \<mapsto> Str (js_str ''white''),
      ''strokeSize'' \<mapsto> Num (js_int 12), ''fontSize'' \<mapsto> Num (js_int 108)]"

section \<open>custom\<close>

text \<open>The argument of \<^verbatim>\<open>custom\<close>; a property left out is \<open>None\<close>.\<close>

record background =
  bg_path :: js_string
  bg_width :: js_number
  bg_height :: js_number

record custom_options =
  co_background :: background
  co_textOrTexts :: text_input
  co_defaultConfig :: "js_object option"
  co_lineSpace :: "js_number option"

text \<open>
  \<^verbatim>\<open>confs.map(conf => textSvg(conf))\<close>: the options are drawn from left to right, each
  call of \<^verbatim>\<open>textSvg\<close> in the state the call before it left; the first exception ends
  the map.
\<close>

fun render_all ::
  "'f loader \<Rightarrow> 'f renderer \<Rightarrow> 'f t2sConfig \<Rightarrow> js_object list
    \<Rightarrow> ((js_error + svg_box list) \<times> 'f t2sConfig) option" where
  "render_all loadSync getSVG c [] = Some (Inr [], c)"
| "render_all loadSync getSVG c (conf # confs) =
     (case textSvg loadSync getSVG c conf of
        None \<Rightarrow> None
      | Some (Inl e, c') \<Rightarrow> Some (Inl e, c')
      | Some (Inr box, c') \<Rightarrow>
          (case render_all loadSync getSVG c' confs of
             None \<Rightarrow> None
           | Some (Inl e, c'') \<Rightarrow> Some (Inl e, c'')
           | Some (Inr boxes, c'') \<Rightarrow> Some (Inr (box # boxes), c'')))"

text \<open>
  \<^verbatim>\<open>custom(options)\<close>: \<^verbatim>\<open>parseTextOption\<close>, the map of \<^verbatim>\<open>textSvg\<close>, \<^verbatim>\<open>generateImage\<close>.
  The line space defaults to 16.
\<close>

definition custom ::
  "'f loader \<Rightarrow> 'f renderer \<Rightarrow> 'f t2sConfig \<Rightarrow> custom_options
    \<Rightarrow> ((js_error + composite_plan) \<times> 'f t2sConfig) option" where
  "custom loadSync getSVG c options =
     (let lineSpace = (case co_lineSpace options of None \<Rightarrow> js_int 16 | Some l \<Rightarrow> l);
          bg = co_background options
      in case parseTextOption (co_textOrTexts options) (co_defaultConfig options) of
           Inl e \<Rightarrow> Some (Inl e, c)
         | Inr confs \<Rightarrow>
             (case render_all loadSync getSVG c confs of
                None \<Rightarrow> None
              | Some (Inl e, c') \<Rightarrow> Some (Inl e, c')
              | Some (Inr svgs, c') \<Rightarrow>
                  Some (Inr (generateImage (bg_path bg) (bg_width bg) (bg_height bg) svgs
                               (Some lineSpace)), c')))"

section \<open>xibao and beibao\<close>

definition xibao ::
  "assets \<Rightarrow> 'f loader \<Rightarrow> 'f renderer \<Rightarrow> 'f t2sConfig \<Rightarrow> text_input
    \<Rightarrow> ((js_error + composite_plan) \<times> 'f t2sConfig) option" where
  "xibao files loadSync getSVG c textOrTexts =
     custom loadSync getSVG c
       \<lparr>co_background = \<lparr>bg_path = xibao_file files, bg_width = size_width xibaoSize,
                          bg_height = size_height xibaoSize\<rparr>,
        co_textOrTexts = textOrTexts,
        co_defaultConfig = Some xibao_config,
        co_lineSpace = Some (js_int 16)\<rparr>"

definition beibao ::
  "assets \<Rightarrow> 'f loader \<Rightarrow> 'f renderer \<Rightarrow> 'f t2sConfig \<Rightarrow> text_input
    \<Rightarrow> ((js_error + composite_plan) \<times> 'f t2sConfig) option" where
  "beibao files loadSync getSVG c textOrTexts =
     custom loadSync getSVG c
       \<lparr>co_background = \<lparr>bg_path = beibao_file files, bg_width = size_width beibaoSize,
                          bg_height = size_height beibaoSize\<rparr>,
        co_textOrTexts = textOrTexts,
        co_defaultConfig = Some beibao_config,
        co_lineSpace = Some (js_int 16)\<rparr>"

text \<open>The state of the module when it has been loaded.\<close>

definition module_init :: "assets \<Rightarrow> 'f t2sConfig" where
  "module_init files = init_config (font_file files)"

section \<open>Inputs without lines\<close>

text \<open>
  The inputs on which normalising throws (a text without line feed that is empty or
  white space only), and the inputs that give no line at all (a text of line feeds and
  white space, or an empty array).
\<close>

fun throws_on :: "text_input \<Rightarrow> bool" where
  "throws_on (Text t) \<longleftrightarrow> LF \<notin> set t \<and> list_all is_js_whitespace t"
| "throws_on (Texts ts) \<longleftrightarrow> False"

fun no_lines :: "text_input \<Rightarrow> bool" where
  "no_lines (Text t) \<longleftrightarrow> LF \<in> set t \<and> list_all is_js_whitespace t"
| "no_lines (Texts ts) \<longleftrightarrow> ts = []"

section \<open>What an overlay shows\<close>

text \<open>
  The request \<^verbatim>\<open>textSvg\<close> passes to the renderer for a line drawn with the style of a
  preset (font size 108, stroke size 12, the preset's two colours), and the relation
  between a line of the text and the overlay drawn for it: the overlay shows the
  drawing the renderer returns for that line and request, patched by \<^verbatim>\<open>textSvg\<close>.
\<close>

abbreviation preset_request :: "js_string \<Rightarrow> js_string \<Rightarrow> svg_request" where
  "preset_request col scol \<equiv>
     \<lparr>req_fontSize = js_int 108, req_x = js_int 6, req_y = js_int 0, req_anchor = js_str ''top'',
      req_fill = col, req_stroke = scol, req_stroke_width = js_int 12,
      req_paint_order = js_str ''stroke''\<rparr>"

definition shows_line ::
  "'f renderer \<Rightarrow> 'f \<Rightarrow> svg_request \<Rightarrow> js_number \<Rightarrow> js_string \<Rightarrow> overlay \<Rightarrow> bool" where
  "shows_line getSVG t2s req strokeSize l c \<longleftrightarrow>
     (case patch_svg strokeSize (getSVG t2s l req) of
        None \<Rightarrow> False
      | Some box \<Rightarrow> drawing (input c) = svg box)"

lemmas pipeline_defs [xibao_defs] =
  xibaoSize_def beibaoSize_def xibao_config_def beibao_config_def custom_def xibao_def
  beibao_def module_init_def

section \<open>What normalising returns\<close>

lemma parseTextOption_Text_eq:
  "parseTextOption (Text t) d =
     map_sum id (map (\<lambda>l. with_defaults (case d of None \<Rightarrow> default_defaultConfig | Some c \<Rightarrow> c)
       (text_object l))) (textToLines16 t)"
  by (simp add: parseTextOption_def comp_def split: sum.split)

lemma textToLines_Inl_iff:
  "textToLines t mx = Inl e \<longleftrightarrow> e = TypeError \<and> LF \<notin> set t \<and> list_all is_js_whitespace t"
  by (cases "LF \<in> set t")
    (auto simp: textToLines_preformatted textToLines_plain rebalance_error_iff
      lines_all_empty_iff list_all_iff)

lemma textToLines_Nil_iff:
  "textToLines t mx = Inr [] \<longleftrightarrow> LF \<in> set t \<and> list_all is_js_whitespace t"
proof (cases "LF \<in> set t")
  case True
  then show ?thesis by (simp add: textToLines_preformatted lines_all_empty_iff list_all_iff)
next
  case False
  let ?r = "filter (\<lambda>l. l \<noteq> []) (lines (scan_text mx t))"
  have "rebalance ?r \<noteq> Inr []"
  proof
    assume "rebalance ?r = Inr []"
    with rebalance_length [of ?r "[]"] have "?r = []" by simp
    with \<open>rebalance ?r = Inr []\<close> show False by simp
  qed
  with False show ?thesis by (simp add: textToLines_plain)
qed

lemma parseTextOption_Inl_iff:
  "parseTextOption x d = Inl e \<longleftrightarrow> throws_on x \<and> e = TypeError"
proof (cases x)
  case (Text t)
  then show ?thesis
    by (auto simp: parseTextOption_Text_eq map_sum_eq_Inl_iff textToLines_Inl_iff)
next
  case (Texts ts)
  then show ?thesis by (simp add: parseTextOption_def)
qed

lemma parseTextOption_Nil_iff:
  "parseTextOption x d = Inr [] \<longleftrightarrow> no_lines x"
proof (cases x)
  case (Text t)
  then show ?thesis
    by (auto simp: parseTextOption_Text_eq map_sum_eq_Inr_iff textToLines_Nil_iff)
next
  case (Texts ts)
  then show ?thesis by (simp add: parseTextOption_def)
qed

section \<open>Drawing the options in turn\<close>

lemma render_all_Inl:
  "render_all L G c confs = Some (Inl e, c') \<longleftrightarrow> confs \<noteq> [] \<and> getT2s L c = Inl e \<and> c' = c"
proof (induction confs arbitrary: c c')
  case Nil
  then show ?case by simp
next
  case (Cons conf confs)
  show ?case
  proof (cases "getT2s L c")
    case (Inl e')
    then show ?thesis by (auto simp: textSvg_error)
  next
    case (Inr p)
    then obtain f c1 where g: "getT2s L c = Inr (f, c1)" by (cases p) auto
    have "getT2s L c1 = Inr (f, c1)" using g by (rule getT2s_after_ok)
    with Cons.IH [of c1] have "render_all L G c1 confs \<noteq> Some (Inl e, c'')" for c'' by simp
    with g show ?thesis
      by (auto simp: textSvg_def split: option.splits sum.splits prod.splits)
  qed
qed

lemma render_all_state:
  assumes "render_all L G c confs = Some (r, c')"
  shows "c' = (if confs = [] then c else font_step L c GetT2s)"
  using assms
proof (induction confs arbitrary: c r c')
  case Nil
  then show ?case by simp
next
  case (Cons conf confs)
  from Cons.prems obtain r1 c1 where t: "textSvg L G c conf = Some (r1, c1)"
    by (auto split: option.splits)
  note c1 = textSvg_state [OF t]
  show ?case
  proof (cases r1)
    case (Inl e)
    with Cons.prems t c1 show ?thesis by simp
  next
    case (Inr box)
    with t obtain f where g: "getT2s L c = Inr (f, c1)" by (auto elim: textSvg_cases)
    from Cons.prems t Inr obtain r2 where "render_all L G c1 confs = Some (r2, c')"
      by (auto split: option.splits sum.splits prod.splits)
    from Cons.IH [OF this] getT2s_after_ok [OF g] g show ?thesis by simp
  qed
qed

lemma render_all_length:
  "render_all L G c confs = Some (Inr boxes, c') \<Longrightarrow> length boxes = length confs"
  by (induction confs arbitrary: c boxes c')
    (auto split: option.splits sum.splits prod.splits)

lemma render_all_reachable:
  assumes "reachable L d c" and "render_all L G c confs = Some (r, c')"
  shows "reachable L d c'"
  using render_all_state [OF assms(2)] assms(1) reachable.step [OF assms(1), of GetT2s]
  by (auto simp del: font_step.simps)

section \<open>The two outcomes of custom\<close>

lemma custom_cases:
  obtains (throws) e where "parseTextOption (co_textOrTexts opts) (co_defaultConfig opts) = Inl e"
      "custom L G c opts = Some (Inl e, c)"
  | (rendered) confs where "parseTextOption (co_textOrTexts opts) (co_defaultConfig opts) = Inr confs"
      "custom L G c opts =
         map_option (\<lambda>(r, c'). (map_sum id (\<lambda>svgs.
             generateImage (bg_path (co_background opts)) (bg_width (co_background opts))
               (bg_height (co_background opts)) svgs
               (Some (case co_lineSpace opts of None \<Rightarrow> js_int 16 | Some l \<Rightarrow> l))) r, c'))
           (render_all L G c confs)"
  by (cases "parseTextOption (co_textOrTexts opts) (co_defaultConfig opts)")
    (auto simp: custom_def Let_def split: option.splits sum.splits prod.splits)

lemma xibao_config_default: "xibao_config = default_defaultConfig"
  by (simp add: xibao_config_def default_defaultConfig_def)

section \<open>An example run\<close>

lemma read_option_default:
  "read_option (with_defaults xibao_config (text_object t)) =
     Some \<lparr>opt_text = t, opt_fontSize = js_int 108, opt_color = js_str ''red'',
           opt_strokeSize = js_int 12, opt_strokeColor = js_str ''#fcf88d''\<rparr>"
  by (simp add: read_option_def with_defaults_apply preferred_def text_object_def
      xibao_config_def)

lemma render_example:
  "render_all (\<lambda>p. Inr (0::nat)) (\<lambda>f t r. example_svg) (init_config (js_str ''font.ttf''))
     (map (\<lambda>t. with_defaults xibao_config (text_object t)) [js_str ''a'', js_str ''b'']) =
   Some (Inr (map int_box [(112, 50, example_patched), (112, 50, example_patched)]),
         \<lparr>fontfile = js_str ''font.ttf'', loadedFontfile = js_str ''font.ttf'',
          instance = Some 0\<rparr>)"
  by (simp add: textSvg_def getT2s_def init_config_def read_option_default patch_example)

section \<open>From the lines of a text to the overlays\<close>

text \<open>
  Once the font is loaded every call of \<^verbatim>\<open>textSvg\<close> finds it in the cache; so the boxes
  of the lines are the patched drawings of the renderer, in order, and the plan shows
  them in order.
\<close>

lemma render_all_settled:
  assumes "getT2s L c = Inr (f, c)"
    and "list_all2 (\<lambda>conf box. textSvg L G c conf = Some (Inr box, c)) confs boxes"
  shows "render_all L G c confs = Some (Inr boxes, c)"
  using assms(2) by (induction confs boxes rule: list_all2_induct) simp_all

lemma textSvg_drawn:
  assumes "getT2s L c = Inr (f, c')" and "read_option conf = Some opt"
    and "patch_svg (opt_strokeSize opt) (G f (opt_text opt) (request_of opt)) = Some box"
  shows "textSvg L G c conf = Some (Inr box, c')"
  using assms by (simp add: textSvg_def)

lemma render_all_boxes:
  assumes "getT2s L c = Inr (f, c')" and "confs \<noteq> []"
    and "list_all2 (\<lambda>conf box. \<exists>opt. read_option conf = Some opt
           \<and> patch_svg (opt_strokeSize opt) (G f (opt_text opt) (request_of opt)) = Some box)
         confs boxes"
  shows "render_all L G c confs = Some (Inr boxes, c')"
proof -
  note g' = getT2s_after_ok [OF assms(1)]
  from assms(2,3) obtain conf rest box bs where l: "confs = conf # rest" "boxes = box # bs"
    by (cases confs; cases boxes) auto
  from assms(3) l have "textSvg L G c conf = Some (Inr box, c')"
    by (auto intro: textSvg_drawn [OF assms(1)])
  moreover from assms(3) l have
    "list_all2 (\<lambda>conf box. textSvg L G c' conf = Some (Inr box, c')) rest bs"
    by (auto intro: textSvg_drawn [OF g'] elim!: list_all2_mono)
  then have "render_all L G c' rest = Some (Inr bs, c')" by (rule render_all_settled [OF g'])
  ultimately show ?thesis by (simp add: l)
qed

lemma read_option_preset:
  "read_option (with_defaults
      [''color'' \<mapsto> Str col, ''strokeColor'' \<mapsto> Str scol, ''strokeSize'' \<mapsto> Num (js_int 12),
       ''fontSize'' \<mapsto> Num (js_int 108)] (text_object l)) =
     Some \<lparr>opt_text = l, opt_fontSize = js_int 108, opt_color = col,
           opt_strokeSize = js_int 12, opt_strokeColor = scol\<rparr>"
  by (simp add: read_option_def with_defaults_apply preferred_def text_object_def)

lemma custom_draws_lines:
  assumes "textToLines16 t = Inr ls" and "ls \<noteq> []" and "getT2s L c = Inr (f, c')"
    and "\<forall>l\<in>set ls. width_bounded (G f l (preset_request col scol))"
    and "cfg = [''color'' \<mapsto> Str col, ''strokeColor'' \<mapsto> Str scol,
                ''strokeSize'' \<mapsto> Num (js_int 12), ''fontSize'' \<mapsto> Num (js_int 108)]"
  shows "\<exists>plan. custom L G c \<lparr>co_background = bg, co_textOrTexts = Text t,
                   co_defaultConfig = Some cfg, co_lineSpace = Some (js_int 16)\<rparr>
                 = Some (Inr plan, c')
           \<and> background plan = bg_path bg
           \<and> list_all2 (shows_line G f (preset_request col scol) (js_int 12)) ls (composites plan)"
proof -
  let ?req = "preset_request col scol"
  let ?confs = "map (\<lambda>l. with_defaults cfg (text_object l)) ls"
  from assms(1) have p: "parseTextOption (Text t) (Some cfg) = Inr ?confs"
    by (simp add: parseTextOption_Text_eq)
  have "\<forall>l\<in>set ls. \<exists>box. patch_svg (js_int 12) (G f l ?req) = Some box"
    using assms(4) patch_svg_total [of _ 12] by fastforce
  from ex_list_all2 [OF this] obtain boxes where
    b: "list_all2 (\<lambda>l box. patch_svg (js_int 12) (G f l ?req) = Some box) ls boxes" ..
  then have "list_all2 (\<lambda>conf box. \<exists>opt. read_option conf = Some opt
           \<and> patch_svg (opt_strokeSize opt) (G f (opt_text opt) (request_of opt)) = Some box)
         ?confs boxes"
    by (simp add: list_all2_map1 assms(5) read_option_preset request_default)
  with assms(2,3) have r: "render_all L G c ?confs = Some (Inr boxes, c')"
    by (intro render_all_boxes) simp_all
  let ?plan = "generateImage (bg_path bg) (bg_width bg) (bg_height bg) boxes (Some (js_int 16))"
  have d: "map (\<lambda>c. drawing (input c)) (composites ?plan) = map svg boxes"
    by (simp add: generateImage_composites Let_def drawing_place_all comp_def)
  from b have len: "length ls = length boxes" by (rule list_all2_lengthD)
  from d have len': "length (composites ?plan) = length boxes" by (rule map_eq_imp_length_eq)
  have "list_all2 (shows_line G f ?req (js_int 12)) ls (composites ?plan)"
  proof (rule list_all2_all_nthI)
    show "length ls = length (composites ?plan)" using len len' by simp
    fix i assume i: "i < length ls"
    with b have "patch_svg (js_int 12) (G f (ls ! i) ?req) = Some (boxes ! i)"
      by (simp add: list_all2_conv_all_nth)
    moreover from d i len len' have "drawing (input (composites ?plan ! i)) = svg (boxes ! i)"
      by (metis nth_map)
    ultimately show "shows_line G f ?req (js_int 12) (ls ! i) (composites ?plan ! i)"
      by (simp add: shows_line_def)
  qed
  then have "\<exists>plan. plan = ?plan \<and> list_all2 (shows_line G f ?req (js_int 12)) ls (composites plan)
      \<and> background plan = bg_path bg"
    by (simp add: generateImage_def Let_def)
  with p r show ?thesis by (auto simp: custom_def)
qed

end
