(* ===== verification/Spec2Isabelle.thy ===== *)
theory Spec2Isabelle
  imports Xibao_Prelude JS_String Text_Lines JS_Number JS_Rounding Layout Text_Option Font_Cache
    Text_Svg Pipeline
begin

text \<open>
  \<^bold>\<open>A verification development for xibao\<close> (\<^verbatim>\<open>src/index.js\<close>).

  The program draws a text on a background picture. A text is split into lines
  (\<^verbatim>\<open>textToLines\<close>), every line is completed to a styled option (\<^verbatim>\<open>parseTextOption\<close>),
  every option is drawn as an SVG of known width and height (\<^verbatim>\<open>textSvg\<close>, with the font
  cached by \<^verbatim>\<open>getT2s\<close> and configured by \<^verbatim>\<open>setFont\<close>), and the drawings are scaled,
  stacked and centred on the canvas (\<^verbatim>\<open>generateImage\<close>), which hands a list of overlays
  to the raster library. \<^verbatim>\<open>custom\<close>, \<^verbatim>\<open>xibao\<close> and \<^verbatim>\<open>beibao\<close> chain these steps.

  \<^bold>\<open>Theories.\<close>

  \<^descr>[\<open>Xibao_Prelude\<close>] the code unit type, the exceptions (\<open>TypeError\<close>, \<open>FontError\<close>),
  the theorem collections \<open>xibao_defs\<close> and \<open>js_string_simps\<close>, and the list lemmas the
  components share (\<open>dropWhile\<close>, the last two elements of a list, \<open>list_all\<close>).

  \<^descr>[\<open>JS_String\<close>] JavaScript strings as lists of UTF-16 code units (\<open>16 word\<close>) and
  the primitives the splitter calls: the string iterator \<open>js_chars\<close> (a surrogate pair
  is one character), \<open>char_code_lt_256\<close> (\<^verbatim>\<open>charCodeAt(0) < 256\<close>), \<open>js_trim\<close>,
  \<open>js_includes\<close>, \<open>js_substring\<close>. Lemmas: the iterator partitions the string,
  \<open>js_includes\<close> on one code unit is membership, trimming is idempotent, removes only
  white space and keeps well-formedness, \<open>substring\<close> splits a string.

  \<^descr>[\<open>Text_Lines\<close>] \<^verbatim>\<open>textToLines\<close>: the variables \<^verbatim>\<open>lines\<close>, \<^verbatim>\<open>line\<close>, \<^verbatim>\<open>ctr\<close> are the
  record \<open>split_state\<close>, the closure \<^verbatim>\<open>addLine\<close> is \<open>addLine\<close>, the loop body is
  \<open>scan_char\<close>, the loop with the final \<^verbatim>\<open>addLine()\<close> is \<open>scan_text\<close>, the code after
  the \<^verbatim>\<open>includes\<close> test is \<open>rebalance\<close>, which returns \<open>Inl TypeError\<close> where the code
  reads \<^verbatim>\<open>last.length\<close> of \<^verbatim>\<open>undefined\<close>. The limit is an integer. The specification
  \<open>chunks\<close> is the greedy wrapping the loop is proved to compute. Properties: when the
  function throws, conservation of the content, the width bound \<open>max + 1\<close>, what
  rebalancing moves and that no orphan is left, the round trip with joining by line
  feeds, non-empty lines, well-formedness of pre-formatted text; and by evaluation that
  rebalancing can split a surrogate pair.

  \<^descr>[\<open>JS_Number\<close>] the numbers of the layout code: \<open>js_number\<close> is a finite rational,
  \<open>-0\<close>, an infinity or \<open>NaN\<close>; the operators \<open>js_add\<close>, \<open>js_sub\<close>, \<open>js_mul\<close>,
  \<open>js_div\<close>, \<open>js_lt\<close>, \<open>js_gt\<close>, \<open>js_strict_neq\<close>, \<open>js_floor\<close>, \<open>js_ceil\<close> round
  their exact result to binary64 with \<open>round_double\<close>, that is \<open>fl\<close> (round to nearest,
  ties to even, 53 bits, exponent clamped at \<open>-1022\<close>) with overflow to an infinity and
  signed underflow. \<open>fl_frac\<close> computes the same rounding of a fraction with \<open>div\<close>,
  \<open>mod\<close> and bit lengths; the collection \<open>js_eval\<close> evaluates the operators on
  literals through it. Lemmas: the binary exponent is the floor of the logarithm,
  \<open>fl_frac\<close> agrees with \<open>fl\<close>, rounding is odd and is exact on \<open>m * 2\<^sup>k\<close> for
  \<open>\<bar>m\<bar> \<le> 2\<^sup>5\<^sup>3\<close>, \<open>k \<ge> -1074\<close>, hence the operators are exact on integers up to
  \<open>2\<^sup>5\<^sup>3\<close>, and a quotient of integers is the rounding \<open>fl_frac\<close> computes.

  \<^descr>[\<open>JS_Rounding\<close>] the analysis of \<open>fl\<close> the scaled layout needs: rounding is
  monotone and idempotent, its error is at most half a unit in the last place (a
  relative error of \<open>2\<^sup>-\<^sup>5\<^sup>3\<close> above \<open>min_normal\<close>), every operator returns a value of
  the type (\<open>is_double\<close>), the rounded quotient \<open>a / b\<close> of integers \<open>a < b \<le> 2\<^sup>4\<^sup>8\<close>
  times \<open>b\<close> misses \<open>a\<close> by at most a sixteenth, before and after the product is
  rounded, so that its floor is \<open>a\<close> or \<open>a - 1\<close>, and the difference of an integer and a
  binary64 value next to it is exact.

  \<^descr>[\<open>Layout\<close>] \<^verbatim>\<open>generateImage\<close>: \<open>fit_scale\<close> and \<open>toDraw\<close> are the callback of
  \<^verbatim>\<open>svgs.map\<close>, \<open>totalHeight\<close> the \<^verbatim>\<open>reduce\<close>, \<open>globalScale\<close> and \<open>start_y\<close> the two
  assignments before the loop, \<open>overlay_of\<close>, \<open>advance\<close> and \<open>place_line\<close> the loop
  body, \<open>generateImage\<close> their composition; the loop is a \<open>foldl\<close> over the state
  \<open>(y, composites)\<close>. The result \<open>composite_plan\<close> is the argument of
  \<^verbatim>\<open>bg.composite\<close> and the scale that \<^verbatim>\<open>console.warn\<close> prints. An overlay that the code
  rasterises is \<open>Resized svg w h\<close>: the drawing and the size passed to \<^verbatim>\<open>resize\<close>. The
  specification is \<open>place_all\<close> (the loop as a recursion) and, for integer sizes that
  need no scaling (\<open>fits\<close>), \<open>unscaled_plan\<close> with \<open>block_height\<close> and \<open>stack_tops\<close>;
  for lines that shrink, the scaled layout on rationals (\<open>global_scale\<close>,
  \<open>scaled_start\<close>, \<open>scaled_size\<close>, \<open>scaled_advance\<close>, \<open>scaled_tops\<close>,
  \<open>scaled_bottom\<close>) and the predicates \<open>draw_within\<close>, \<open>inside_h\<close> and \<open>stacked\<close> on the
  result. Properties: the overlays carry the drawings in order; for lines that fit the
  plan is exactly \<open>unscaled_plan\<close>, every overlay is inside the canvas, consecutive
  lines are \<open>lineSpace\<close> apart and the block is centred up to one pixel; for all lines
  of positive integer size, scaled or not, the real size of a line is within the
  canvas, a line that does not fit is shrunk to the canvas or to one pixel less in the
  dimension that binds (\<open>toDraw_tight\<close>), every overlay is horizontally inside the
  canvas, and the overlays are stacked without overlap between \<open>-1\<close> and the canvas
  height. By evaluation with \<open>js_eval\<close>: with global scaling the first \<^verbatim>\<open>top\<close> is \<open>-1\<close>
  on the canvas of \<^verbatim>\<open>xibao\<close>, and a line of width 2116 scaled to the canvas width 1292
  is drawn 1291 wide.

  \<^descr>[\<open>Text_Option\<close>] \<^verbatim>\<open>parseTextOption\<close>: an object is a map from property names to
  \<open>js_value\<close>, \<^verbatim>\<open>Object.assign\<close> is \<open>object_assign\<close> (map override from left to right),
  \<open>to_opts\<close> is the conditional that builds \<^verbatim>\<open>opts\<close>, \<open>with_defaults\<close> the callback of
  \<^verbatim>\<open>opts.map\<close>; an argument left out is \<open>None\<close> and replaced by
  \<open>default_defaultConfig\<close>. Properties: the precedence entry, default configuration,
  built-in style for every property; every result has the four style properties; a
  text gives one option per line; the function throws exactly when \<^verbatim>\<open>textToLines\<close>
  does; normalising is idempotent.

  \<^descr>[\<open>Font_Cache\<close>] the module object \<^verbatim>\<open>t2sConfig\<close> as the record \<open>t2sConfig\<close>,
  \<open>getT2s\<close> and \<open>setFont\<close> as functions on it, the calls of a client as \<open>font_call\<close>
  with \<open>font_step\<close>, the states of the module as the inductive predicate \<open>reachable\<close>
  and as the runs \<open>run_font\<close>. \<^verbatim>\<open>TextToSVG.loadSync\<close> is a parameter, a function from
  the path to the instance or the error; it is assumed to return the same for the
  same path. Properties: the invariant \<open>coherent\<close> holds in every reachable state,
  \<open>getT2s\<close> returns the instance of the configured file, a second call does not
  load again, \<open>setFont\<close> takes effect at the next call.

  \<^descr>[\<open>Text_Svg\<close>] \<^verbatim>\<open>textSvg\<close>: \<open>read_option\<close> is the destructuring of the option,
  \<open>request_of\<close> the object passed to \<^verbatim>\<open>t2s.getSVG\<close> (a parameter, a function from the
  instance, the text and the request to the drawing), \<open>match_digits\<close> the two regular
  expressions (\<open>matches_at\<close> is a match at one position, the first position that
  matches wins and the digits are taken greedily), \<open>js_parseInt\<close>, \<open>number_to_string\<close>
  the template literals, \<open>replace_first\<close> the call of \<^verbatim>\<open>replace\<close>, \<open>patch_svg\<close> the
  returned box, \<open>textSvg\<close> the whole function in a state of the font cache. Results
  are \<open>Some\<close> of an exception or a box with the state after the call; \<open>None\<close> is what the
  model leaves out. \<open>width_bounded\<close> says that the width a drawing declares is at most
  \<open>2\<^sup>5\<^sup>2\<close>. Properties: the match is the leftmost run of digits after the key; the
  patched drawing declares the width that is returned. Lemmas: \<^verbatim>\<open>parseInt\<close> and the
  conversion to a string are inverse on canonical digits, and \<open>patch_svg\<close> returns a box
  for every drawing that is \<open>width_bounded\<close>.

  \<^descr>[\<open>Pipeline\<close>] \<^verbatim>\<open>custom\<close>, \<^verbatim>\<open>xibao\<close>, \<^verbatim>\<open>beibao\<close> and the two size constants:
  \<open>render_all\<close> is \<^verbatim>\<open>parseTextOption(...).map(conf => textSvg(conf))\<close> with the font
  cache threaded through the calls from left to right, \<open>custom\<close> composes it with
  \<open>parseTextOption\<close> and \<open>generateImage\<close>, \<open>xibao\<close> and \<open>beibao\<close> call \<open>custom\<close> with
  their background, canvas and colours. The paths of the assets are parameters.
  \<open>preset_request\<close> is the request \<^verbatim>\<open>textSvg\<close> sends for a line in the style of a
  preset, and \<open>shows_line\<close> says that an overlay shows the drawing the renderer returns
  for a line and a request, patched by \<open>patch_svg\<close>. Lemmas: a run of \<open>render_all\<close>
  after a successful \<^verbatim>\<open>getT2s\<close> returns one box per option, each the patched drawing of
  its option, and leaves the font cache as that call left it; \<open>custom\<close> on a text with
  lines returns a plan with one overlay per line that shows the line.

  \<^descr>[\<open>Spec2Isabelle\<close>] the properties of the whole pipeline: which inputs make
  \<^verbatim>\<open>custom\<close> throw and what; the plan for lines that fit, end to end; the state of the
  font cache after a call; inputs without lines; and what \<^verbatim>\<open>xibao\<close> and \<^verbatim>\<open>beibao\<close>
  return for a text: their background and, line by line, the drawing of the renderer
  for the style of the preset.

  \<^bold>\<open>Bounds.\<close> No fuel is used: every loop of the program runs over a finite list and
  is a \<open>foldl\<close> or a structural recursion, so every function of the model is total and
  termination needs no separate theorem. For the same reason no property says that a
  call returns, or that a result is a number: both hold of every function of these
  types, whatever it computes; what a call returns is stated by the functional
  properties. The width theorem of the splitter needs a
  limit of at least 7 (rebalancing adds two code units, that is up to four units, to a
  last line of at most two code units); the program passes 16. The layout theorems for
  lines that fit take sizes up to \<open>2\<^sup>5\<^sup>0\<close>, so that every intermediate sum stays below
  \<open>2\<^sup>5\<^sup>3\<close>, where binary64 arithmetic on integers is exact. The theorems on scaled
  lines take sizes and a block height up to \<open>2\<^sup>4\<^sup>8\<close>: then a sixteenth next to an
  integer is a binary64 value, and two roundings of a product enlarge it by less than
  one. The theorems on \<^verbatim>\<open>textSvg\<close> take widths up to \<open>2\<^sup>5\<^sup>2\<close>, so that adding the stroke
  size is exact and the number has a plain decimal string.

  \<^bold>\<open>Not modelled.\<close> The raster library (\<^verbatim>\<open>sharp\<close>: decoding, \<^verbatim>\<open>resize\<close>, \<^verbatim>\<open>png\<close>,
  \<^verbatim>\<open>composite\<close>) and the font library (\<^verbatim>\<open>text-to-svg\<close>: \<^verbatim>\<open>loadSync\<close>, \<^verbatim>\<open>getSVG\<close>) are
  external; the model stops at the arguments passed to them, and the two functions of
  the font library are parameters. The string of a number is modelled for \<^verbatim>\<open>NaN\<close>, the
  infinities and integers below \<open>10\<^sup>2\<^sup>1\<close>; options whose properties have other types
  than documented, and numbers with another string, give \<open>None\<close>. The text of the
  warning (\<^verbatim>\<open>toFixed(4)\<close>) is not modelled, only the scale it reports. The asynchrony
  of \<^verbatim>\<open>generateImage\<close> is not modelled: the overlays are computed in order, as the
  \<^verbatim>\<open>await\<close> in the loop makes the code do. For sizes that are not positive integers the
  layout is modelled (the operators are total on \<open>js_number\<close>), but no bound is proved.
  The argument \<^verbatim>\<open>textOrTexts\<close> is a string or an array of strings and option objects
  (\<open>text_input\<close>), as the documentation of the functions says; for any other value the
  code calls \<^verbatim>\<open>textOrTexts.map\<close> and throws a \<^verbatim>\<open>TypeError\<close> where the value has no such
  method, which the model does not cover.

  \<^bold>\<open>Assumptions.\<close> \<^verbatim>\<open>getSVG\<close> returns a string for every instance, text and request (it
  does not throw); \<^verbatim>\<open>loadSync\<close> is a function of the path; the pictures the raster
  library produces are not part of any statement, only the arguments it is called with.
\<close>

section \<open>Properties of the pipeline\<close>

text \<open>
  C12. The exceptions of \<^verbatim>\<open>custom\<close>: it throws \<^verbatim>\<open>TypeError\<close> exactly on a text without
  line feed that is empty or white space only; on any other input that has a line it
  throws exactly when the font cannot be loaded, with the error of the font library;
  it throws nothing else, and a call that throws leaves the font cache as it was.
\<close>

theorem custom_throws_iff:
  "custom L G c opts = Some (Inl e, c') \<longleftrightarrow>
     c' = c \<and> (if throws_on (co_textOrTexts opts) then e = TypeError
               else \<not> no_lines (co_textOrTexts opts) \<and> getT2s L c = Inl e)"
proof (rule custom_cases [of opts L G c])
  fix e'
  assume "parseTextOption (co_textOrTexts opts) (co_defaultConfig opts) = Inl e'"
    and "custom L G c opts = Some (Inl e', c)"
  then show ?thesis by (auto simp: parseTextOption_Inl_iff)
next
  fix confs
  assume p: "parseTextOption (co_textOrTexts opts) (co_defaultConfig opts) = Inr confs"
    and "custom L G c opts =
         map_option (\<lambda>(r, c'). (map_sum id (\<lambda>svgs.
             generateImage (bg_path (co_background opts)) (bg_width (co_background opts))
               (bg_height (co_background opts)) svgs
               (Some (case co_lineSpace opts of None \<Rightarrow> js_int 16 | Some l \<Rightarrow> l))) r, c'))
           (render_all L G c confs)"
  then have "custom L G c opts = Some (Inl e, c') \<longleftrightarrow> render_all L G c confs = Some (Inl e, c')"
    by (cases "render_all L G c confs") (auto simp: map_sum_eq_Inl_iff)
  moreover from p have "\<not> throws_on (co_textOrTexts opts)"
    using parseTextOption_Inl_iff [of "co_textOrTexts opts" "co_defaultConfig opts"] by auto
  moreover from p have "confs = [] \<longleftrightarrow> no_lines (co_textOrTexts opts)"
    using parseTextOption_Nil_iff [of "co_textOrTexts opts" "co_defaultConfig opts"] by auto
  ultimately show ?thesis by (auto simp: render_all_Inl)
qed

theorem custom_throws_iff_witness:
  "xibao \<lparr>font_file = js_str ''font.ttf'', xibao_file = js_str ''xibao.webp'',
           beibao_file = js_str ''beibao.webp''\<rparr>
     (\<lambda>p. Inl FontError :: js_error + nat) (\<lambda>f t r. example_svg)
     (init_config (js_str ''font.ttf'')) (Text []) =
   Some (Inl TypeError, init_config (js_str ''font.ttf''))"
  using custom_throws_iff [of "\<lambda>p. Inl FontError :: js_error + nat" "\<lambda>f t r. example_svg"
      "init_config (js_str ''font.ttf'')"
      "\<lparr>co_background = \<lparr>bg_path = js_str ''xibao.webp'', bg_width = size_width xibaoSize,
          bg_height = size_height xibaoSize\<rparr>, co_textOrTexts = Text [],
        co_defaultConfig = Some xibao_config, co_lineSpace = Some (js_int 16)\<rparr>"
      TypeError "init_config (js_str ''font.ttf'')"]
  by (simp add: xibao_def)

text \<open>
  C11. End to end, lines that fit are placed as promised: when the drawings of the
  options have integer sizes (as \<^verbatim>\<open>textSvg\<close> reads them) that fit the canvas,
  \<^verbatim>\<open>custom\<close> returns the plan of the specification, with every drawing as patched by
  \<^verbatim>\<open>textSvg\<close>, and the font cache as the drawing left it.
\<close>

theorem custom_fits:
  assumes "parseTextOption x d = Inr confs"
    and "render_all L G c confs = Some (Inr (map int_box bs), c')"
    and "fits cw ch bs ls"
  shows "custom L G c
           \<lparr>co_background = \<lparr>bg_path = p, bg_width = js_int cw, bg_height = js_int ch\<rparr>,
            co_textOrTexts = x, co_defaultConfig = d, co_lineSpace = Some (js_int ls)\<rparr> =
         Some (Inr (unscaled_plan p cw ch bs ls), c')"
  using assms by (simp add: custom_def generateImage_unscaled)

theorem custom_fits_witness:
  "xibao \<lparr>font_file = js_str ''font.ttf'', xibao_file = js_str ''xibao.webp'',
           beibao_file = js_str ''beibao.webp''\<rparr>
     (\<lambda>p. Inr (0::nat)) (\<lambda>f t r. example_svg) (init_config (js_str ''font.ttf''))
     (Texts [Line (js_str ''a''), Line (js_str ''b'')]) =
   Some (Inr \<lparr>background = js_str ''xibao.webp'',
              composites = [\<lparr>input = Raw example_patched, left = js_int 590, top' = js_int 426\<rparr>,
                            \<lparr>input = Raw example_patched, left = js_int 590, top' = js_int 492\<rparr>],
              warning = None\<rparr>,
         \<lparr>fontfile = js_str ''font.ttf'', loadedFontfile = js_str ''font.ttf'',
          instance = Some 0\<rparr>)"
  using custom_fits [OF _ render_example, of "Texts [Line (js_str ''a''), Line (js_str ''b'')]"
      "Some xibao_config" 1292 968 16 "js_str ''xibao.webp''"]
  by (simp add: xibao_def xibaoSize_def parseTextOption_def fits_def sized_def block_height_def
      line_height_def unscaled_plan_def int_overlay_def)

text \<open>
  C22. \<^verbatim>\<open>custom\<close> loads the font at most once: the font cache after a call is the cache
  before it when the input throws or has no line, and otherwise the cache after one
  call of \<^verbatim>\<open>getT2s\<close>, however many lines are drawn.
\<close>

theorem custom_font_state:
  assumes "custom L G c opts = Some (r, c')"
  shows "c' = (if throws_on (co_textOrTexts opts) \<or> no_lines (co_textOrTexts opts) then c
               else font_step L c GetT2s)"
proof (rule custom_cases [of opts L G c])
  fix e
  assume "parseTextOption (co_textOrTexts opts) (co_defaultConfig opts) = Inl e"
    and "custom L G c opts = Some (Inl e, c)"
  with assms show ?thesis by (simp add: parseTextOption_Inl_iff)
next
  fix confs
  let ?x = "co_textOrTexts opts" and ?d = "co_defaultConfig opts"
  assume p: "parseTextOption ?x ?d = Inr confs"
    and "custom L G c opts =
         map_option (\<lambda>(r, c'). (map_sum id (\<lambda>svgs.
             generateImage (bg_path (co_background opts)) (bg_width (co_background opts))
               (bg_height (co_background opts)) svgs
               (Some (case co_lineSpace opts of None \<Rightarrow> js_int 16 | Some l \<Rightarrow> l))) r, c'))
           (render_all L G c confs)"
  with assms obtain r' where "render_all L G c confs = Some (r', c')" by auto
  note st = render_all_state [OF this]
  from p have "\<not> throws_on ?x" using parseTextOption_Inl_iff [of ?x ?d] by auto
  moreover from p have "confs = [] \<longleftrightarrow> no_lines ?x" using parseTextOption_Nil_iff [of ?x ?d] by auto
  ultimately show ?thesis using st by simp
qed

theorem custom_font_state_witness:
  "snd (the (xibao \<lparr>font_file = js_str ''font.ttf'', xibao_file = js_str ''xibao.webp'',
           beibao_file = js_str ''beibao.webp''\<rparr>
     (\<lambda>p. Inr (0::nat)) (\<lambda>f t r. example_svg) (init_config (js_str ''font.ttf''))
     (Texts []))) = init_config (js_str ''font.ttf'')
   \<and> snd (the (xibao \<lparr>font_file = js_str ''font.ttf'', xibao_file = js_str ''xibao.webp'',
           beibao_file = js_str ''beibao.webp''\<rparr>
     (\<lambda>p. Inr (0::nat)) (\<lambda>f t r. example_svg) (init_config (js_str ''font.ttf''))
     (Texts [Line (js_str ''a''), Line (js_str ''b'')]))) =
     \<lparr>fontfile = js_str ''font.ttf'', loadedFontfile = js_str ''font.ttf'', instance = Some 0\<rparr>"
  using custom_font_state [of "\<lambda>p. Inr (0::nat)" "\<lambda>f t r. example_svg"
      "init_config (js_str ''font.ttf'')"
      "\<lparr>co_background = \<lparr>bg_path = js_str ''xibao.webp'', bg_width = size_width xibaoSize,
          bg_height = size_height xibaoSize\<rparr>, co_textOrTexts = Texts [],
        co_defaultConfig = Some xibao_config, co_lineSpace = Some (js_int 16)\<rparr>"]
    custom_font_state [of "\<lambda>p. Inr (0::nat)" "\<lambda>f t r. example_svg"
      "init_config (js_str ''font.ttf'')"
      "\<lparr>co_background = \<lparr>bg_path = js_str ''xibao.webp'', bg_width = size_width xibaoSize,
          bg_height = size_height xibaoSize\<rparr>,
        co_textOrTexts = Texts [Line (js_str ''a''), Line (js_str ''b'')],
        co_defaultConfig = Some xibao_config, co_lineSpace = Some (js_int 16)\<rparr>"]
    render_example
  by (simp add: xibao_def custom_def parseTextOption_def getT2s_def init_config_def)

text \<open>
  C32. An input without lines (a text of line feeds and white space, or an empty array)
  gives the background alone: no overlay, no warning, and the font is not loaded. The
  line space is an integer that is not negative and the canvas height an integer of at
  least minus the line space, so that \<^verbatim>\<open>-lineSpace > height\<close> is false.
\<close>

theorem custom_no_lines:
  assumes "no_lines x" and "0 \<le> ls" and "- ls \<le> ch"
  shows "custom L G c
           \<lparr>co_background = \<lparr>bg_path = p, bg_width = js_int cw, bg_height = js_int ch\<rparr>,
            co_textOrTexts = x, co_defaultConfig = d, co_lineSpace = Some (js_int ls)\<rparr> =
         Some (Inr \<lparr>background = p, composites = [], warning = None\<rparr>, c)"
proof -
  from assms(1) have "parseTextOption x d = Inr []" by (simp add: parseTextOption_Nil_iff)
  with assms(2,3) show ?thesis
    by (simp add: custom_def generateImage_Nil js_gt_neg_int)
qed

theorem custom_no_lines_witness:
  "custom (\<lambda>p. Inl FontError :: js_error + nat) (\<lambda>f t r. example_svg)
     (init_config (js_str ''font.ttf''))
     \<lparr>co_background = \<lparr>bg_path = js_str ''xibao.webp'', bg_width = js_int 1292,
        bg_height = js_int 968\<rparr>,
      co_textOrTexts = Text [LF], co_defaultConfig = None, co_lineSpace = Some (js_int 16)\<rparr> =
   Some (Inr \<lparr>background = js_str ''xibao.webp'', composites = [], warning = None\<rparr>,
         init_config (js_str ''font.ttf''))"
  using custom_no_lines [of "Text [LF]" 16 968 "\<lambda>p. Inl FontError :: js_error + nat"
      "\<lambda>f t r. example_svg" "init_config (js_str ''font.ttf'')" "js_str ''xibao.webp''" 1292 None]
  by simp

text \<open>
  C16. The presets draw the lines of the text: when a text splits into lines, the font
  loads, and the renderer reports widths of at most \<open>2\<^sup>5\<^sup>2\<close>, \<^verbatim>\<open>xibao\<close> and \<^verbatim>\<open>beibao\<close>
  return a plan on their own background with one overlay per line, in the order of the
  lines; the overlay of a line shows the drawing the renderer returns for that line with
  font size 108, stroke size 12, anchor top, x = 6 and the colours of the preset (red
  on \<^verbatim>\<open>#fcf88d\<close>, or \<^verbatim>\<open>#2d2d2d\<close> on white), with its width attribute patched; the font
  cache is the one the first \<^verbatim>\<open>getT2s\<close> leaves.
\<close>

theorem presets_draw_lines:
  assumes "textToLines16 t = Inr ls" and "ls \<noteq> []" and "getT2s L c = Inr (f, c')"
    and "\<forall>l\<in>set ls. \<forall>r. width_bounded (G f l r)"
  shows "(\<exists>plan. xibao files L G c (Text t) = Some (Inr plan, c')
            \<and> background plan = xibao_file files
            \<and> list_all2 (shows_line G f (preset_request (js_str ''red'') (js_str ''#fcf88d''))
                  (js_int 12)) ls (composites plan))
       \<and> (\<exists>plan. beibao files L G c (Text t) = Some (Inr plan, c')
            \<and> background plan = beibao_file files
            \<and> list_all2 (shows_line G f (preset_request (js_str ''#2d2d2d'') (js_str ''white''))
                  (js_int 12)) ls (composites plan))"
proof -
  from assms(4) have w: "\<forall>l\<in>set ls. width_bounded (G f l (preset_request col scol))" for col scol
    by simp
  let ?x = "\<lparr>bg_path = xibao_file files, bg_width = size_width xibaoSize,
      bg_height = size_height xibaoSize\<rparr>"
  let ?b = "\<lparr>bg_path = beibao_file files, bg_width = size_width beibaoSize,
      bg_height = size_height beibaoSize\<rparr>"
  from custom_draws_lines [where G = G and f = f and bg = ?x, OF assms(1-3)
      w [of "js_str ''red''" "js_str ''#fcf88d''"] xibao_config_def]
    custom_draws_lines [where G = G and f = f and bg = ?b, OF assms(1-3)
      w [of "js_str ''#2d2d2d''" "js_str ''white''"] beibao_config_def]
  show ?thesis by (simp add: xibao_def beibao_def)
qed

theorem presets_draw_lines_witness:
  "(\<exists>plan. xibao \<lparr>font_file = js_str ''font.ttf'', xibao_file = js_str ''xibao.webp'',
              beibao_file = js_str ''beibao.webp''\<rparr>
        (\<lambda>p. Inr (0::nat)) (\<lambda>f t r. example_svg) (init_config (js_str ''font.ttf''))
        (Text (js_str ''ABCDEFG XY'')) =
      Some (Inr plan, \<lparr>fontfile = js_str ''font.ttf'', loadedFontfile = js_str ''font.ttf'',
                        instance = Some 0\<rparr>)
      \<and> background plan = js_str ''xibao.webp''
      \<and> list_all2 (shows_line (\<lambda>f t r. example_svg) (0::nat)
            (preset_request (js_str ''red'') (js_str ''#fcf88d'')) (js_int 12))
          [js_str ''ABCDEFG XY''] (composites plan))
   \<and> (\<exists>plan. beibao \<lparr>font_file = js_str ''font.ttf'', xibao_file = js_str ''xibao.webp'',
              beibao_file = js_str ''beibao.webp''\<rparr>
        (\<lambda>p. Inr (0::nat)) (\<lambda>f t r. example_svg) (init_config (js_str ''font.ttf''))
        (Text (js_str ''ABCDEFG XY'')) =
      Some (Inr plan, \<lparr>fontfile = js_str ''font.ttf'', loadedFontfile = js_str ''font.ttf'',
                        instance = Some 0\<rparr>)
      \<and> background plan = js_str ''beibao.webp''
      \<and> list_all2 (shows_line (\<lambda>f t r. example_svg) (0::nat)
            (preset_request (js_str ''#2d2d2d'') (js_str ''white'')) (js_int 12))
          [js_str ''ABCDEFG XY''] (composites plan))"
proof -
  have g: "getT2s (\<lambda>p. Inr (0::nat)) (init_config (js_str ''font.ttf'')) =
      Inr (0, \<lparr>fontfile = js_str ''font.ttf'', loadedFontfile = js_str ''font.ttf'',
                instance = Some 0\<rparr>)"
    by (simp add: getT2s_def init_config_def)
  have w: "\<forall>l\<in>set [js_str ''ABCDEFG XY'']. \<forall>r. width_bounded ((\<lambda>f t r. example_svg) (0::nat) l r)"
    by (simp add: width_bounded_def example_svg_facts)
  from presets_draw_lines [where G = "\<lambda>f t r. example_svg" and f = "0::nat"
      and files = "\<lparr>font_file = js_str ''font.ttf'', xibao_file = js_str ''xibao.webp'',
        beibao_file = js_str ''beibao.webp''\<rparr>", OF textToLines16_examples(2) _ g w]
  show ?thesis by simp
qed

end
